theory Spec2Isabelle
  imports Main "HOL-Library.Sublist" "HOL-Library.Multiset"
begin

section \<open>The retweet and mention network\<close>

text \<open>
  The program \<^verbatim>\<open>retweetNetworkForTVshow.py\<close> keeps one global directed graph
  (\<^verbatim>\<open>network = nx.DiGraph()\<close>), fills it from the tweets of a MongoDB collection
  that carry a given hashtag, and writes it out as GraphML. This theory embeds the
  graph, the two upsert functions \<^verbatim>\<open>add_user\<close> and \<^verbatim>\<open>add_relation\<close>, and the
  scan \<^verbatim>\<open>query_tweets\<close>, and proves the properties the specification states of them.
\<close>

subsection \<open>Data model\<close>

text \<open>
  A node of the graph is a Python int (a user id) with a dictionary of attributes; the only
  key the program ever stores there is \<^verbatim>\<open>adoption_time\<close>. An edge has a dictionary with the
  keys \<^verbatim>\<open>type\<close> (a string over the letters R, M, Q, C) and \<^verbatim>\<open>creation_time\<close>. A key that
  is absent from a dictionary is \<open>None\<close>. Timestamps are epoch seconds, Python ints.
\<close>

record node_attrs =
  adoption_time :: "int option"

record edge_attrs =
  type :: "string option"
  creation_time :: "int option"

text \<open>
  \<^verbatim>\<open>nx.DiGraph\<close> is a dictionary of nodes and, per node, a dictionary of successors: the
  edges are a dictionary keyed by the ordered pair (source, target).
\<close>

record graph =
  nodes :: "int \<rightharpoonup> node_attrs"
  edges :: "int \<times> int \<rightharpoonup> edge_attrs"

definition empty_graph :: graph where
  "empty_graph = \<lparr>nodes = Map.empty, edges = Map.empty\<rparr>"

text \<open>
  All failures of the program are Python assertions; they are told apart by the asserted
  condition. The specification calls the first \<open>PrecursorMissing\<close> and the last
  \<open>InvalidArgument\<close>.
\<close>

datatype error =
    PrecursorMissing    \<comment> \<open>\<^verbatim>\<open>assert start in network and end in network\<close>\<close>
  | InvalidKind         \<comment> \<open>\<^verbatim>\<open>assert edge_type in ["R", "M", "Q", "C"]\<close>\<close>
  | EdgeWithoutType     \<comment> \<open>\<^verbatim>\<open>assert "type" in network[start][end]\<close>\<close>
  | InvalidArgument     \<comment> \<open>\<^verbatim>\<open>assert hashtag != ''\<close>\<close>

subsection \<open>The operations of networkx the program calls\<close>

definition has_node :: "graph \<Rightarrow> int \<Rightarrow> bool" where
  \<comment> \<open>\<^verbatim>\<open>n in network\<close>\<close>
  "has_node g n = (nodes g n \<noteq> None)"

definition has_edge :: "graph \<Rightarrow> int \<Rightarrow> int \<Rightarrow> bool" where
  \<comment> \<open>\<^verbatim>\<open>network.has_edge(u, v)\<close>\<close>
  "has_edge g u v = (edges g (u, v) \<noteq> None)"

definition add_node :: "graph \<Rightarrow> int \<Rightarrow> graph" where
  \<comment> \<open>\<^verbatim>\<open>network.add_node(n)\<close> without attributes: a new node gets an empty dictionary,
      a node that exists keeps its own.\<close>
  "add_node g n =
     (if has_node g n then g
      else g\<lparr>nodes := (nodes g)(n \<mapsto> \<lparr>adoption_time = None\<rparr>)\<rparr>)"

definition add_edge :: "graph \<Rightarrow> int \<Rightarrow> int \<Rightarrow> string \<Rightarrow> int \<Rightarrow> graph" where
  \<comment> \<open>\<^verbatim>\<open>network.add_edge(u, v, type=ty, creation_time=ts)\<close>: adds the end points that are
      not nodes yet, then stores the two attributes on the edge (u, v).\<close>
  "add_edge g u v ty ts =
     (let g' = add_node (add_node g u) v
      in g'\<lparr>edges := (edges g')((u, v) \<mapsto>
             (case edges g' (u, v) of
                None \<Rightarrow> \<lparr>type = Some ty, creation_time = Some ts\<rparr>
              | Some attrs \<Rightarrow> attrs\<lparr>type := Some ty, creation_time := Some ts\<rparr>))\<rparr>)"

subsection \<open>\<^verbatim>\<open>add_user\<close>\<close>

text \<open>
  \<^verbatim>\<open>assert isinstance(user_id, int)\<close> holds by the type of \<open>user_id\<close>. The lookup
  \<^verbatim>\<open>network.node[user_id]\<close> cannot miss, the node having just been added
  (lemma \<open>has_node_add_user\<close> below); the model returns the graph as it is there.
\<close>

definition add_user :: "graph \<Rightarrow> int \<Rightarrow> int option \<Rightarrow> graph" where
  "add_user network user_id timestamp =
     (let network1 = (if \<not> has_node network user_id then add_node network user_id else network)
      in case timestamp of
           None \<Rightarrow> network1
         | Some ts \<Rightarrow>
             (case nodes network1 user_id of
                None \<Rightarrow> network1
              | Some attrs \<Rightarrow>
                  if (case adoption_time attrs of None \<Rightarrow> True | Some old \<Rightarrow> ts < old)
                  then network1\<lparr>nodes := (nodes network1)(user_id \<mapsto> attrs\<lparr>adoption_time := Some ts\<rparr>)\<rparr>
                  else network1))"

subsection \<open>\<^verbatim>\<open>add_relation\<close>\<close>

text \<open>
  \<^verbatim>\<open>network.has_edge(start, end)\<close> is the distinction of cases on the edge dictionary
  (\<open>has_edge\<close> above is its truth value), and
  \<^verbatim>\<open>edge_type in network[start][end]["type"]\<close> is Python's substring test on two strings.
  Every assertion comes before the first write, so a failing call leaves the graph as it was.
\<close>

definition add_relation :: "graph \<Rightarrow> int \<Rightarrow> int \<Rightarrow> string \<Rightarrow> int \<Rightarrow> error + graph" where
  "add_relation network start end' edge_type timestamp =
     (if \<not> (has_node network start \<and> has_node network end') then Inl PrecursorMissing
      else if edge_type \<notin> set [''R'', ''M'', ''Q'', ''C''] then Inl InvalidKind
      else
        (case edges network (start, end') of
           Some attrs \<Rightarrow>
             (case type attrs of
                None \<Rightarrow> Inl EdgeWithoutType
              | Some ty \<Rightarrow>
                  (let attrs1 =
                         (if (case creation_time attrs of None \<Rightarrow> True | Some old \<Rightarrow> timestamp < old)
                          then attrs\<lparr>creation_time := Some timestamp\<rparr> else attrs);
                       network1 = network\<lparr>edges := (edges network)((start, end') \<mapsto> attrs1)\<rparr>
                   in if sublist edge_type ty then Inr network1
                      else Inr (network1\<lparr>edges := (edges network1)((start, end') \<mapsto>
                                  attrs1\<lparr>type := Some (ty @ edge_type)\<rparr>)\<rparr>)))
         | None \<Rightarrow> Inr (add_edge network start end' edge_type timestamp)))"

subsection \<open>Tweets, the store and the log\<close>

text \<open>
  A tweet is a document of the collection \<^verbatim>\<open>stream_store.tweets\<close>. The record keeps
  the fields \<^verbatim>\<open>query_tweets\<close> reads:
  \<^item> \<open>created_at\<close> is the value of
    \<^verbatim>\<open>int(datetime.strptime(tweet['created_at'], ...).timestamp())\<close>, the epoch seconds;
  \<^item> an optional field (\<^verbatim>\<open>retweeted_status\<close>, \<^verbatim>\<open>quoted_status\<close>, the key
    \<^verbatim>\<open>user_mentions\<close> of \<^verbatim>\<open>entities\<close>) is \<open>None\<close> when the key is absent;
  \<^item> \<open>in_reply_to_user_id\<close> is \<open>None\<close> when the key is absent or holds \<^verbatim>\<open>None\<close>;
  \<^item> \<open>hashtags\<close> are the texts under \<^verbatim>\<open>entities.hashtags.text\<close>, which the query matches.

  An entry of a mention list is a dictionary. The program reads its key \<^verbatim>\<open>id\<close> only, inside
  \<^verbatim>\<open>try: int(mentioned_user["id"])\<close>: \<open>mention_id\<close> is \<open>None\<close> when that raises (the id is
  \<^verbatim>\<open>None\<close> or missing). The other keys of the entry (screen name, indices, ...) are kept
  in \<open>mention_rest\<close>, because line 134 compares whole entries.
\<close>

record mention =
  mention_id :: "int option"
  mention_rest :: "(string \<times> string) list"

record status =
  status_user_id :: int
  status_user_mentions :: "mention list"

record tweet =
  tweet_id :: int
  user_id :: int
  created_at :: int
  hashtags :: "string list"
  retweeted_status :: "status option"
  quoted_status :: "status option"
  user_mentions :: "mention list option"
  in_reply_to_user_id :: "int option"

datatype log_record =
    QueryBegin                \<comment> \<open>\<^verbatim>\<open>logging.info('Query Tweets Begin')\<close>\<close>
  | QueryString string        \<comment> \<open>\<^verbatim>\<open>logging.info('Query string is ' + ...)\<close>\<close>
  | AbnormalMentionId int     \<comment> \<open>\<^verbatim>\<open>logging.error("Abnormal mention id in tweet {0}")\<close>\<close>

datatype db_access =
    TweetsFind string             \<comment> \<open>\<^verbatim>\<open>database.tweets.find({"entities.hashtags.text": hashtag})\<close>\<close>
  | SocialNetworkFindOne int      \<comment> \<open>\<^verbatim>\<open>database.social_network.find_one({"userid": id})\<close>\<close>

text \<open>
  The state the program works on: the global graph, the log, and the queries it has sent
  to the database so far. An assertion that fails leaves that state as it is at the raise,
  so a failure carries the state with it.
\<close>

record world =
  network :: graph
  logfile :: "log_record list"
  db_accesses :: "db_access list"

type_synonym result = "error \<times> world + world"

definition find_tweets :: "tweet list \<Rightarrow> string \<Rightarrow> tweet list" where
  \<comment> \<open>The answer of the store to \<^verbatim>\<open>{"entities.hashtags.text": hashtag}\<close>: the tweets one of
      whose hashtags is the given text.\<close>
  "find_tweets db hashtag = filter (\<lambda>t. hashtag \<in> set (hashtags t)) db"

definition call_add_user :: "world \<Rightarrow> int \<Rightarrow> int option \<Rightarrow> world" where
  "call_add_user w user timestamp = w\<lparr>network := add_user (network w) user timestamp\<rparr>"

definition call_add_relation :: "world \<Rightarrow> int \<Rightarrow> int \<Rightarrow> string \<Rightarrow> int \<Rightarrow> result" where
  "call_add_relation w start end' edge_type timestamp =
     (case add_relation (network w) start end' edge_type timestamp of
        Inl e \<Rightarrow> Inl (e, w)
      | Inr g \<Rightarrow> Inr (w\<lparr>network := g\<rparr>))"

definition and_then :: "result \<Rightarrow> (world \<Rightarrow> result) \<Rightarrow> result" where
  "and_then r f = (case r of Inl e \<Rightarrow> Inl e | Inr w \<Rightarrow> f w)"

subsection \<open>\<^verbatim>\<open>query_tweets\<close>\<close>

text \<open>
  The loop over \<^verbatim>\<open>tweet["entities"]["user_mentions"]\<close> (lines 126 to 140). The two
  \<^verbatim>\<open>find_one\<close> calls at its end read the database and drop the answer.
\<close>

fun mention_loop :: "tweet \<Rightarrow> mention list \<Rightarrow> mention list \<Rightarrow> mention list \<Rightarrow> world \<Rightarrow> result" where
  "mention_loop tweet original_retweet_mentions original_quote_mentions [] w = Inr w"
| "mention_loop tweet original_retweet_mentions original_quote_mentions (mentioned_user # rest) w =
     (case mention_id mentioned_user of
        None \<Rightarrow>
          mention_loop tweet original_retweet_mentions original_quote_mentions rest
            (w\<lparr>logfile := logfile w @ [AbnormalMentionId (tweet_id tweet)]\<rparr>)
      | Some mentioned_user_id \<Rightarrow>
          if mentioned_user \<in> set original_retweet_mentions
             \<or> mentioned_user \<in> set original_quote_mentions
          then mention_loop tweet original_retweet_mentions original_quote_mentions rest w
          else
            (case call_add_relation (call_add_user w mentioned_user_id None)
                    (user_id tweet) mentioned_user_id ''M'' (created_at tweet) of
               Inl e \<Rightarrow> Inl e
             | Inr w1 \<Rightarrow>
                 mention_loop tweet original_retweet_mentions original_quote_mentions rest
                   (w1\<lparr>db_accesses := db_accesses w1 @
                          [SocialNetworkFindOne (user_id tweet),
                           SocialNetworkFindOne mentioned_user_id]\<rparr>)))"

definition original_retweet_mentions :: "tweet \<Rightarrow> mention list" where
  "original_retweet_mentions tweet =
     (case retweeted_status tweet of None \<Rightarrow> [] | Some st \<Rightarrow> status_user_mentions st)"

definition original_quote_mentions :: "tweet \<Rightarrow> mention list" where
  "original_quote_mentions tweet =
     (case quoted_status tweet of None \<Rightarrow> [] | Some st \<Rightarrow> status_user_mentions st)"

text \<open>The body of the loop over the tweets (lines 92 to 146).\<close>

definition process_tweet :: "tweet \<Rightarrow> world \<Rightarrow> result" where
  "process_tweet tweet w =
     (let create_at = created_at tweet;
          w1 = call_add_user w (user_id tweet) (Some create_at)
      in and_then
           (case retweeted_status tweet of
              None \<Rightarrow> Inr w1
            | Some st \<Rightarrow>
                call_add_relation (call_add_user w1 (status_user_id st) None)
                  (user_id tweet) (status_user_id st) ''R'' create_at)
         (\<lambda>w2. and_then
           (case quoted_status tweet of
              None \<Rightarrow> Inr w2
            | Some st \<Rightarrow>
                call_add_relation (call_add_user w2 (status_user_id st) None)
                  (user_id tweet) (status_user_id st) ''Q'' create_at)
         (\<lambda>w3. and_then
           (case user_mentions tweet of
              None \<Rightarrow> Inr w3
            | Some tweet_mentions \<Rightarrow>
                mention_loop tweet (original_retweet_mentions tweet)
                  (original_quote_mentions tweet) tweet_mentions w3)
         (\<lambda>w4.
            case in_reply_to_user_id tweet of
              None \<Rightarrow> Inr w4
            | Some reply_user_id \<Rightarrow>
                call_add_relation (call_add_user w4 reply_user_id None)
                  (user_id tweet) reply_user_id ''C'' create_at))))"

fun process_tweets :: "tweet list \<Rightarrow> world \<Rightarrow> result" where
  "process_tweets [] w = Inr w"
| "process_tweets (tweet # rest) w =
     (case process_tweet tweet w of
        Inl e \<Rightarrow> Inl e
      | Inr w' \<Rightarrow> process_tweets rest w')"

text \<open>
  \<open>query_tweets db hashtag\<close>, with \<open>db\<close> the documents of the tweet collection in the order
  the cursor yields them.
\<close>

definition query_tweets :: "tweet list \<Rightarrow> string \<Rightarrow> world \<Rightarrow> result" where
  "query_tweets db hashtag w =
     (if hashtag = [] then Inl (InvalidArgument, w)
      else
        (let w1 = w\<lparr>logfile := logfile w @ [QueryBegin, QueryString hashtag]\<rparr>;
             w2 = w1\<lparr>db_accesses := db_accesses w1 @ [TweetsFind hashtag]\<rparr>
         in process_tweets (find_tweets db hashtag) w2))"

definition empty_world :: world where
  "empty_world = \<lparr>network = empty_graph, logfile = [], db_accesses = []\<rparr>"

subsection \<open>Notions used to state the properties\<close>

text \<open>The adoption time of a user, \<open>None\<close> for a user that is no node or has none.\<close>

definition old_adoption :: "graph \<Rightarrow> int \<Rightarrow> int option" where
  "old_adoption g u = (case nodes g u of None \<Rightarrow> None | Some n \<Rightarrow> adoption_time n)"

text \<open>The earlier of a new timestamp and a stored one, either of which may be missing.\<close>

definition earliest :: "int option \<Rightarrow> int option \<Rightarrow> int option" where
  "earliest ts old =
     (case ts of
        None \<Rightarrow> old
      | Some t \<Rightarrow> (case old of None \<Rightarrow> Some t | Some t' \<Rightarrow> Some (min t t')))"

text \<open>Every edge of the graph has a type, and the type is not the empty string.\<close>

definition typed_edges :: "graph \<Rightarrow> bool" where
  "typed_edges g = (\<forall>p e. edges g p = Some e \<longrightarrow> (\<exists>ty. type e = Some ty \<and> ty \<noteq> []))"

text \<open>
  \<open>not_later old new\<close>: a timestamp that was set is still set and has not grown.
\<close>

definition not_later :: "int option \<Rightarrow> int option \<Rightarrow> bool" where
  "not_later old new = (\<forall>t. old = Some t \<longrightarrow> (\<exists>t'. new = Some t' \<and> t' \<le> t))"

text \<open>
  \<open>keeps_kinds old new\<close>: a type that was set is still set, holds every letter it held
  and is not shorter.
\<close>

definition keeps_kinds :: "string option \<Rightarrow> string option \<Rightarrow> bool" where
  "keeps_kinds old new =
     (\<forall>ty. old = Some ty \<longrightarrow> (\<exists>ty'. new = Some ty' \<and> set ty \<subseteq> set ty' \<and> length ty \<le> length ty'))"

text \<open>
  \<open>evolves g g'\<close>: the graph \<open>g'\<close> is a later state of \<open>g\<close>. No node and no edge is lost,
  timestamps only move to earlier times, types only gain letters.
\<close>

definition evolves :: "graph \<Rightarrow> graph \<Rightarrow> bool" where
  "evolves g g' =
     ((\<forall>u n. nodes g u = Some n \<longrightarrow>
          (\<exists>n'. nodes g' u = Some n' \<and> not_later (adoption_time n) (adoption_time n')))
      \<and> (\<forall>p e. edges g p = Some e \<longrightarrow>
          (\<exists>e'. edges g' p = Some e' \<and> keeps_kinds (type e) (type e')
                \<and> not_later (creation_time e) (creation_time e'))))"

text \<open>Two calls of \<^verbatim>\<open>add_relation\<close> on the same pair, one after the other.\<close>

definition two_relations ::
  "graph \<Rightarrow> int \<Rightarrow> int \<Rightarrow> string \<Rightarrow> int \<Rightarrow> string \<Rightarrow> int \<Rightarrow> error + graph" where
  "two_relations g a b k1 t1 k2 t2 =
     (case add_relation g a b k1 t1 of
        Inl e \<Rightarrow> Inl e
      | Inr g1 \<Rightarrow> add_relation g1 a b k2 t2)"

text \<open>The set of letters stored as the type of an edge.\<close>

definition kinds_of :: "edge_attrs \<Rightarrow> char set" where
  "kinds_of e = (case type e of None \<Rightarrow> {} | Some ty \<Rightarrow> set ty)"

text \<open>
  The type stored on the edge from \<open>a\<close> to \<open>b\<close> after a call that returned a graph.
\<close>

definition stored_type :: "error + graph \<Rightarrow> int \<Rightarrow> int \<Rightarrow> string option" where
  "stored_type r a b =
     (case r of
        Inl err \<Rightarrow> None
      | Inr g \<Rightarrow> (case edges g (a, b) of None \<Rightarrow> None | Some e \<Rightarrow> type e))"

text \<open>
  A small graph to run the operations on: user 1 has adopted at time 5, user 2 is known
  only as the quoting end of an edge to user 1.
\<close>

definition sample_graph :: graph where
  "sample_graph =
     \<lparr>nodes = [1 \<mapsto> \<lparr>adoption_time = Some 5\<rparr>, 2 \<mapsto> \<lparr>adoption_time = None\<rparr>],
      edges = [(2, 1) \<mapsto> \<lparr>type = Some ''Q'', creation_time = Some 7\<rparr>]\<rparr>"

text \<open>The type stored on the edge from \<open>a\<close> to \<open>b\<close> of a graph, if there is one.\<close>

definition type_in :: "graph \<Rightarrow> int \<Rightarrow> int \<Rightarrow> string option" where
  "type_in g a b = (case edges g (a, b) of None \<Rightarrow> None | Some e \<Rightarrow> type e)"

text \<open>
  What lines 53 to 57 make of the type of an edge: the kind alone on a new edge, the old
  type when the kind occurs in it, the old type with the kind appended otherwise.
\<close>

definition add_kind :: "string option \<Rightarrow> string \<Rightarrow> string" where
  "add_kind old k =
     (case old of None \<Rightarrow> k | Some ty \<Rightarrow> if sublist k ty then ty else ty @ k)"

text \<open>The edge from \<open>a\<close> to \<open>b\<close> exists and its type holds the letter \<open>c\<close>.\<close>

definition has_kind :: "graph \<Rightarrow> int \<Rightarrow> int \<Rightarrow> char \<Rightarrow> bool" where
  "has_kind g a b c = (case type_in g a b of None \<Rightarrow> False | Some ty \<Rightarrow> c \<in> set ty)"

text \<open>The records the mention loop logs for a mention list: one for each entry whose id does
  not parse.\<close>

definition anomalies :: "tweet \<Rightarrow> mention list \<Rightarrow> log_record list" where
  "anomalies tweet ms = map (\<lambda>m. AbnormalMentionId (tweet_id tweet)) (filter (\<lambda>m. mention_id m = None) ms)"

text \<open>The pair of calls the scan makes for an interaction with user \<open>v\<close>, \<^verbatim>\<open>add_user(v)\<close> and
  \<^verbatim>\<open>add_relation(u, v, k, t)\<close>, guarded by the presence of the field that names \<open>v\<close>.\<close>

definition link_opt :: "world \<Rightarrow> int \<Rightarrow> int option \<Rightarrow> string \<Rightarrow> int \<Rightarrow> result" where
  "link_opt w u vo k t =
     (case vo of None \<Rightarrow> Inr w
      | Some v \<Rightarrow> call_add_relation (call_add_user w v None) u v k t)"

text \<open>Lines 124 to 140 of \<^verbatim>\<open>query_tweets\<close>: the mention loop, when the tweet has a mention list.\<close>

definition mentions_step :: "tweet \<Rightarrow> world \<Rightarrow> result" where
  "mentions_step t w =
     (case user_mentions t of None \<Rightarrow> Inr w
      | Some ms \<Rightarrow> mention_loop t (original_retweet_mentions t) (original_quote_mentions t) ms w)"

text \<open>The records one tweet adds to the log.\<close>

definition mention_anomalies :: "tweet \<Rightarrow> log_record list" where
  "mention_anomalies t = (case user_mentions t of None \<Rightarrow> [] | Some ms \<Rightarrow> anomalies t ms)"

text \<open>A tweet without retweeted status, quoted status or reply target.\<close>

definition plain_tweet :: "int \<Rightarrow> int \<Rightarrow> int \<Rightarrow> string list \<Rightarrow> mention list option \<Rightarrow> tweet" where
  "plain_tweet tid uid ts tags um =
     \<lparr>tweet_id = tid, user_id = uid, created_at = ts, hashtags = tags,
      retweeted_status = None, quoted_status = None, user_mentions = um,
      in_reply_to_user_id = None\<rparr>"

text \<open>A tweet that retweets a tweet of user \<open>orig_uid\<close>, without quoted status or reply target.\<close>

definition retweet_of ::
  "int \<Rightarrow> int \<Rightarrow> int \<Rightarrow> string list \<Rightarrow> mention list option \<Rightarrow> int \<Rightarrow> mention list \<Rightarrow> tweet" where
  "retweet_of tid uid ts tags um orig_uid orig_mentions =
     \<lparr>tweet_id = tid, user_id = uid, created_at = ts, hashtags = tags,
      retweeted_status = Some \<lparr>status_user_id = orig_uid, status_user_mentions = orig_mentions\<rparr>,
      quoted_status = None, user_mentions = um, in_reply_to_user_id = None\<rparr>"

text \<open>The graph of the end-to-end scenario of the specification.\<close>

definition scenario_graph :: graph where
  "scenario_graph =
     \<lparr>nodes = [100 \<mapsto> \<lparr>adoption_time = Some 1000\<rparr>, 200 \<mapsto> \<lparr>adoption_time = Some 2000\<rparr>],
      edges = [(200, 100) \<mapsto> \<lparr>type = Some ''R'', creation_time = Some 2000\<rparr>]\<rparr>"

text \<open>A mention entry whose id does not parse, and one that names user 300.\<close>

definition bad_mention :: mention where
  "bad_mention = \<lparr>mention_id = None, mention_rest = [(''screen_name'', ''ghost'')]\<rparr>"

definition good_mention :: mention where
  "good_mention = \<lparr>mention_id = Some 300, mention_rest = [(''screen_name'', ''carol'')]\<rparr>"

text \<open>The state the program is in when a run ends, normally or by a failed assertion.\<close>

definition final_world :: "result \<Rightarrow> world" where
  "final_world r = (case r of Inl (e, w) \<Rightarrow> w | Inr w \<Rightarrow> w)"

text \<open>The assertion a run failed on, if any.\<close>

definition error_of :: "result \<Rightarrow> error option" where
  "error_of r = (case r of Inl (e, w) \<Rightarrow> Some e | Inr w \<Rightarrow> None)"

text \<open>\<open>goes_on w r\<close>: a run that started after the database accesses of \<open>w\<close> has only added to them,
  and has not failed on the hashtag assertion.\<close>

definition goes_on :: "world \<Rightarrow> result \<Rightarrow> bool" where
  "goes_on w r =
     (prefix (db_accesses w) (db_accesses (final_world r)) \<and> error_of r \<noteq> Some InvalidArgument)"

text \<open>A retweet by user 200 of a tweet of user 100 that mentions user 300; the retweet carries
  the same mention entry in its own mention list.\<close>

definition retweet_with_mention :: tweet where
  "retweet_with_mention = retweet_of 2 200 2000 [''X''] (Some [good_mention]) 100 [good_mention]"

text \<open>
  The same retweet with a second entry in its own mention list, whose id does not parse.
\<close>

definition retweet_with_two_mentions :: tweet where
  "retweet_with_two_mentions =
     retweet_of 2 200 2000 [''X''] (Some [bad_mention, good_mention]) 100 [good_mention]"

section \<open>Properties\<close>

subsection \<open>Nodes\<close>

lemma earliest_simps [simp]:
  "earliest None old = old"
  "earliest (Some t) None = Some t"
  "earliest (Some t) (Some t') = Some (min t t')"
  by (simp_all add: earliest_def)

lemma empty_graph_simps [simp]:
  "nodes empty_graph = Map.empty"
  "edges empty_graph = Map.empty"
  "has_node empty_graph u = False"
  "old_adoption empty_graph u = None"
  by (simp_all add: empty_graph_def has_node_def old_adoption_def)

lemma has_node_add_node [simp]: "has_node (add_node g n) m = (m = n \<or> has_node g m)"
  by (auto simp: add_node_def has_node_def)

lemma edges_add_node [simp]: "edges (add_node g n) = edges g"
  by (simp add: add_node_def)

lemma add_node_known [simp]: "has_node g n \<Longrightarrow> add_node g n = g"
  by (simp add: add_node_def)

lemma nodes_add_user:
  "nodes (add_user g u ts) = (nodes g)(u \<mapsto> \<lparr>adoption_time = earliest ts (old_adoption g u)\<rparr>)"
  by (auto simp: add_user_def add_node_def has_node_def old_adoption_def earliest_def Let_def fun_eq_iff
           split: option.splits)

lemma edges_add_user [simp]: "edges (add_user g u ts) = edges g"
  by (auto simp: add_user_def add_node_def has_node_def Let_def split: option.splits)

lemma has_node_add_user [simp]: "has_node (add_user g u ts) v = (v = u \<or> has_node g v)"
  by (simp add: has_node_def nodes_add_user)

lemma old_adoption_add_user [simp]:
  "old_adoption (add_user g u ts) v
   = (if v = u then earliest ts (old_adoption g u) else old_adoption g v)"
  by (simp add: old_adoption_def nodes_add_user)

lemma graph_eqI: "nodes g = nodes h \<Longrightarrow> edges g = edges h \<Longrightarrow> g = (h::graph)"
  by simp

text \<open>
  C4. For a user \<open>u\<close> that has no adoption time yet (whether or not \<open>u\<close> is a node),
  \<open>add_user u t1\<close> followed by \<open>add_user u t2\<close> leaves \<open>u\<close> a node with the adoption
  time \<open>min t1 t2\<close>, and the two calls in the other order give the same graph.
\<close>

theorem add_user_earliest_wins:
  assumes "old_adoption g u = None"
  shows "has_node (add_user (add_user g u (Some t1)) u (Some t2)) u
         \<and> old_adoption (add_user (add_user g u (Some t1)) u (Some t2)) u = Some (min t1 t2)
         \<and> add_user (add_user g u (Some t1)) u (Some t2)
           = add_user (add_user g u (Some t2)) u (Some t1)"
proof -
  have "nodes (add_user (add_user g u (Some t1)) u (Some t2))
        = nodes (add_user (add_user g u (Some t2)) u (Some t1))"
    by (simp add: nodes_add_user assms min.commute)
  then have "add_user (add_user g u (Some t1)) u (Some t2)
           = add_user (add_user g u (Some t2)) u (Some t1)"
    by (intro graph_eqI) simp_all
  then show ?thesis
    by (simp add: assms min.commute)
qed

theorem add_user_earliest_wins_witness:
  "old_adoption (add_user empty_graph 7 None) 7 = None
   \<and> has_node (add_user (add_user (add_user empty_graph 7 None) 7 (Some 5)) 7 (Some 3)) 7
   \<and> old_adoption (add_user (add_user (add_user empty_graph 7 None) 7 (Some 5)) 7 (Some 3)) 7
     = Some 3
   \<and> add_user (add_user (add_user empty_graph 7 None) 7 (Some 5)) 7 (Some 3)
     = add_user (add_user (add_user empty_graph 7 None) 7 (Some 3)) 7 (Some 5)"
  using add_user_earliest_wins [of "add_user empty_graph 7 None" 7 5 3]
  by simp

subsection \<open>Edges\<close>

lemma sublist_letter: "sublist [c] ty \<longleftrightarrow> c \<in> set ty"
  by (induction ty) (auto simp: sublist_Cons_right)

lemma add_relation_missing:
  "\<not> has_node g a \<or> \<not> has_node g b \<Longrightarrow> add_relation g a b k t = Inl PrecursorMissing"
  by (auto simp: add_relation_def)

lemma add_relation_new:
  assumes "has_node g a" "has_node g b" "k \<in> set [''R'', ''M'', ''Q'', ''C'']"
    and "edges g (a, b) = None"
  shows "add_relation g a b k t
         = Inr (g\<lparr>edges := (edges g)((a, b) \<mapsto> \<lparr>type = Some k, creation_time = Some t\<rparr>)\<rparr>)"
  using assms by (simp add: add_relation_def add_edge_def)

lemma add_relation_old:
  assumes "has_node g a" "has_node g b" "k \<in> set [''R'', ''M'', ''Q'', ''C'']"
    and "edges g (a, b) = Some e" "type e = Some ty"
  shows "add_relation g a b k t
         = Inr (g\<lparr>edges := (edges g)((a, b) \<mapsto>
                  \<lparr>type = Some (if sublist k ty then ty else ty @ k),
                   creation_time = earliest (Some t) (creation_time e)\<rparr>)\<rparr>)"
proof (cases e)
  case (fields ty' ct)
  with assms(5) have e: "e = \<lparr>type = Some ty, creation_time = ct\<rparr>" by simp
  show ?thesis
    using assms(1-4) unfolding e
    by (cases ct) (simp_all add: add_relation_def earliest_def Let_def min_def)
qed

lemma add_relation_nodes: "add_relation g a b k t = Inr g' \<Longrightarrow> nodes g' = nodes g"
  by (auto simp: add_relation_def add_edge_def Let_def split: if_splits option.splits)

lemma add_relation_other_edges:
  "add_relation g a b k t = Inr g' \<Longrightarrow> p \<noteq> (a, b) \<Longrightarrow> edges g' p = edges g p"
  by (auto simp: add_relation_def add_edge_def Let_def split: if_splits option.splits)

lemma add_relation_succeeds:
  "add_relation g a b k t = Inr g' \<Longrightarrow>
   has_node g a \<and> has_node g b \<and> k \<in> set [''R'', ''M'', ''Q'', ''C'']"
  by (auto simp: add_relation_def split: if_splits)

lemma sample_graph_simps [simp]:
  "has_node sample_graph u = (u = 1 \<or> u = 2)"
  "edges sample_graph p = (if p = (2, 1) then Some \<lparr>type = Some ''Q'', creation_time = Some 7\<rparr> else None)"
  "typed_edges sample_graph"
  by (auto simp: sample_graph_def has_node_def typed_edges_def)

lemma add_relation_total:
  assumes "has_node g a" "has_node g b" "k \<in> set [''R'', ''M'', ''Q'', ''C'']"
    and "typed_edges g"
  shows "\<exists>g'. add_relation g a b k t = Inr g'"
proof (cases "edges g (a, b)")
  case None
  then show ?thesis using assms by (simp add: add_relation_new)
next
  case (Some e)
  from assms(4) Some have "\<exists>ty. type e = Some ty"
    unfolding typed_edges_def by blast
  then obtain ty where "type e = Some ty" ..
  with Some show ?thesis using assms(1-3) by (simp add: add_relation_old)
qed

text \<open>
  C10. A call of \<open>add_relation a b\<close> that succeeds leaves every node with its attributes
  and every edge other than the one from \<open>a\<close> to \<open>b\<close> exactly as they were.
\<close>

theorem add_relation_frame:
  "add_relation g a b k t = Inr g' \<Longrightarrow>
   nodes g' = nodes g \<and> (\<forall>p. p \<noteq> (a, b) \<longrightarrow> edges g' p = edges g p)"
  by (simp add: add_relation_nodes add_relation_other_edges)

theorem add_relation_frame_witness:
  "add_relation sample_graph 1 2 ''R'' 10
     = Inr (sample_graph\<lparr>edges := (edges sample_graph)((1, 2) \<mapsto>
              \<lparr>type = Some ''R'', creation_time = Some 10\<rparr>)\<rparr>)
   \<and> nodes (sample_graph\<lparr>edges := (edges sample_graph)((1, 2) \<mapsto>
              \<lparr>type = Some ''R'', creation_time = Some 10\<rparr>)\<rparr>) = nodes sample_graph
   \<and> (2, 1) \<noteq> (1, 2 :: int)
   \<and> edges (sample_graph\<lparr>edges := (edges sample_graph)((1, 2) \<mapsto>
              \<lparr>type = Some ''R'', creation_time = Some 10\<rparr>)\<rparr>) (2, 1) = edges sample_graph (2, 1)"
proof -
  have s: "add_relation sample_graph 1 2 ''R'' 10
     = Inr (sample_graph\<lparr>edges := (edges sample_graph)((1, 2) \<mapsto>
              \<lparr>type = Some ''R'', creation_time = Some 10\<rparr>)\<rparr>)"
    by (simp add: add_relation_new)
  from add_relation_frame [OF s] s show ?thesis by simp
qed

text \<open>
  C7. \<open>add_relation\<close> fails with \<open>PrecursorMissing\<close> whenever one of the two end points is
  not a node. When both are nodes it never fails that way, and with one of the four kinds,
  on a graph whose edges all carry a type (every graph the program builds, see
  \<open>typed_edges_empty\<close>, \<open>typed_edges_add_user\<close> and \<open>typed_edges_add_relation\<close>), it succeeds.
\<close>

theorem add_relation_precondition:
  "(\<not> has_node g a \<or> \<not> has_node g b \<longrightarrow> add_relation g a b k t = Inl PrecursorMissing)
   \<and> (has_node g a \<and> has_node g b \<longrightarrow> add_relation g a b k t \<noteq> Inl PrecursorMissing)
   \<and> (has_node g a \<and> has_node g b \<and> k \<in> set [''R'', ''M'', ''Q'', ''C''] \<and> typed_edges g
        \<longrightarrow> (\<exists>g'. add_relation g a b k t = Inr g'))"
proof (intro conjI impI)
  assume "\<not> has_node g a \<or> \<not> has_node g b"
  then show "add_relation g a b k t = Inl PrecursorMissing" by (rule add_relation_missing)
next
  assume "has_node g a \<and> has_node g b"
  then show "add_relation g a b k t \<noteq> Inl PrecursorMissing"
    by (simp add: add_relation_def Let_def split: option.splits)
next
  assume "has_node g a \<and> has_node g b \<and> k \<in> set [''R'', ''M'', ''Q'', ''C''] \<and> typed_edges g"
  then show "\<exists>g'. add_relation g a b k t = Inr g'" by (simp add: add_relation_total)
qed

theorem add_relation_precondition_witness:
  "\<not> has_node sample_graph 3
   \<and> add_relation sample_graph 1 3 ''R'' 10 = Inl PrecursorMissing
   \<and> add_relation sample_graph 3 1 ''R'' 10 = Inl PrecursorMissing
   \<and> has_node sample_graph 2 \<and> has_node sample_graph 1
   \<and> ''M'' \<in> set [''R'', ''M'', ''Q'', ''C''] \<and> typed_edges sample_graph
   \<and> add_relation sample_graph 2 1 ''M'' 10 \<noteq> Inl PrecursorMissing
   \<and> (\<exists>g'. add_relation sample_graph 2 1 ''M'' 10 = Inr g')"
  using add_relation_precondition [of sample_graph 1 3 "''R''" 10]
    add_relation_precondition [of sample_graph 3 1 "''R''" 10]
    add_relation_precondition [of sample_graph 2 1 "''M''" 10]
  by simp

text \<open>
  C3, as the code has it. For two nodes \<open>a\<close> and \<open>b\<close> with no edge from \<open>a\<close> to \<open>b\<close> yet,
  a Retweet relation at \<open>t1\<close> followed by a Mention relation at \<open>t2\<close> succeeds and leaves
  one edge from \<open>a\<close> to \<open>b\<close> (the only new key of the edge dictionary), with the type
  letters R and M and the creation time \<open>min t1 t2\<close>. The two nodes being registered is not
  enough: an edge that is there already keeps its letters and its earlier creation time
  (see the example after the theorem).
\<close>

theorem retweet_then_mention:
  assumes "has_node g a" "has_node g b" "\<not> has_edge g a b"
  shows "\<exists>g2 e. two_relations g a b ''R'' t1 ''M'' t2 = Inr g2
           \<and> edges g2 (a, b) = Some e
           \<and> type e = Some ''RM'' \<and> kinds_of e = {CHR ''R'', CHR ''M''}
           \<and> creation_time e = Some (min t1 t2)
           \<and> dom (edges g2) = insert (a, b) (dom (edges g))
           \<and> nodes g2 = nodes g"
proof -
  let ?g1 = "g\<lparr>edges := (edges g)((a, b) \<mapsto> \<lparr>type = Some ''R'', creation_time = Some t1\<rparr>)\<rparr>"
  have 1: "add_relation g a b ''R'' t1 = Inr ?g1"
    using assms by (simp add: add_relation_new has_edge_def)
  have n: "has_node ?g1 a" "has_node ?g1 b"
    using assms(1,2) by (simp_all add: has_node_def)
  have 2: "add_relation ?g1 a b ''M'' t2
     = Inr (?g1\<lparr>edges := (edges ?g1)((a, b) \<mapsto>
              \<lparr>type = Some ''RM'', creation_time = Some (min t2 t1)\<rparr>)\<rparr>)"
    using add_relation_old [OF n, of "''M''" "\<lparr>type = Some ''R'', creation_time = Some t1\<rparr>" "''R''" t2]
    by (simp add: sublist_letter)
  show ?thesis
    unfolding two_relations_def 1 
    by (simp add: 2 kinds_of_def min.commute insert_commute)
qed

theorem retweet_then_mention_witness:
  "has_node sample_graph 1 \<and> has_node sample_graph 2 \<and> \<not> has_edge sample_graph 1 2
   \<and> (\<exists>g2 e. two_relations sample_graph 1 2 ''R'' 30 ''M'' 20 = Inr g2
           \<and> edges g2 (1, 2) = Some e
           \<and> type e = Some ''RM'' \<and> kinds_of e = {CHR ''R'', CHR ''M''}
           \<and> creation_time e = Some 20
           \<and> dom (edges g2) = insert (1, 2) (dom (edges sample_graph))
           \<and> nodes g2 = nodes sample_graph)"
  using retweet_then_mention [of sample_graph 1 2 30 20]
  by (simp add: has_edge_def)

text \<open>
  On \<open>sample_graph\<close> the nodes 2 and 1 are registered and joined by a Quote edge created
  at time 7. A Retweet relation at 30 and a Mention relation at 20 leave that edge with the
  type \<open>QRM\<close> and the creation time 7, not with the letters R and M alone and the time 20.
\<close>

theorem retweet_then_mention_counterexample:
  "has_node sample_graph 2 \<and> has_node sample_graph 1 \<and> has_edge sample_graph 2 1
   \<and> two_relations sample_graph 2 1 ''R'' 30 ''M'' 20
       = Inr (sample_graph\<lparr>edges := (edges sample_graph)((2, 1) \<mapsto>
                \<lparr>type = Some ''QRM'', creation_time = Some 7\<rparr>)\<rparr>)
   \<and> CHR ''Q'' \<in> kinds_of \<lparr>type = Some ''QRM'', creation_time = Some 7\<rparr>
   \<and> CHR ''Q'' \<notin> {CHR ''R'', CHR ''M''}
   \<and> Some (7 :: int) \<noteq> Some (min 30 20)"
  by (simp add: two_relations_def add_relation_def add_edge_def add_node_def kinds_of_def
        sample_graph_def has_node_def has_edge_def Let_def sublist_code)

lemma add_relation_cases:
  assumes "add_relation g a b k t = Inr g'"
  obtains
    (new) "edges g (a, b) = None"
      "g' = g\<lparr>edges := (edges g)((a, b) \<mapsto> \<lparr>type = Some k, creation_time = Some t\<rparr>)\<rparr>"
  | (old) e ty where "edges g (a, b) = Some e" "type e = Some ty"
      "g' = g\<lparr>edges := (edges g)((a, b) \<mapsto>
                  \<lparr>type = Some (if sublist k ty then ty else ty @ k),
                   creation_time = earliest (Some t) (creation_time e)\<rparr>)\<rparr>"
proof -
  note ok = add_relation_succeeds [OF assms]
  show thesis
  proof (cases "edges g (a, b)")
    case None
    with ok assms have "g' = g\<lparr>edges := (edges g)((a, b) \<mapsto> \<lparr>type = Some k, creation_time = Some t\<rparr>)\<rparr>"
      by (simp add: add_relation_new)
    with None show thesis by (rule new)
  next
    case (Some e)
    with assms ok obtain ty where ty: "type e = Some ty"
      by (cases "type e") (auto simp: add_relation_def)
    with Some ok assms have "g' = g\<lparr>edges := (edges g)((a, b) \<mapsto>
                  \<lparr>type = Some (if sublist k ty then ty else ty @ k),
                   creation_time = earliest (Some t) (creation_time e)\<rparr>)\<rparr>"
      by (simp add: add_relation_old)
    with Some ty show thesis by (rule old)
  qed
qed

lemma kind_not_empty: "k \<in> set [''R'', ''M'', ''Q'', ''C''] \<Longrightarrow> k \<noteq> []"
  by auto

lemma typed_edges_empty: "typed_edges empty_graph"
  by (simp add: typed_edges_def)

lemma typed_edges_add_user [simp]: "typed_edges (add_user g u ts) = typed_edges g"
  by (simp add: typed_edges_def)

lemma typed_edges_add_relation:
  assumes "typed_edges g" "add_relation g a b k t = Inr g'"
  shows "typed_edges g'"
proof -
  have k: "k \<noteq> []"
    using add_relation_succeeds [OF assms(2)] by (simp add: kind_not_empty)
  from assms(2) show ?thesis
  proof (cases rule: add_relation_cases)
    case new
    with assms(1) k show ?thesis by (auto simp: typed_edges_def)
  next
    case (old e ty)
    with assms(1) k show ?thesis by (auto simp: typed_edges_def)
  qed
qed

lemma dom_edges_add_relation:
  assumes "add_relation g a b k t = Inr g'"
  shows "dom (edges g') = insert (a, b) (dom (edges g))"
  using assms by (cases rule: add_relation_cases) auto

lemma not_later_refl [simp]: "not_later x x"
  by (simp add: not_later_def)

lemma not_later_trans: "not_later x y \<Longrightarrow> not_later y z \<Longrightarrow> not_later x z"
  by (fastforce simp: not_later_def)

lemma not_later_earliest [simp]: "not_later old (earliest ts old)"
  by (cases ts; cases old) (simp_all add: not_later_def)

lemma keeps_kinds_refl [simp]: "keeps_kinds x x"
  by (simp add: keeps_kinds_def)

lemma keeps_kinds_trans: "keeps_kinds x y \<Longrightarrow> keeps_kinds y z \<Longrightarrow> keeps_kinds x z"
  unfolding keeps_kinds_def by (metis order_trans)

lemma evolves_refl [simp]: "evolves g g"
  by (simp add: evolves_def)

lemma evolves_trans:
  assumes "evolves g h" "evolves h i"
  shows "evolves g i"
  unfolding evolves_def
proof (intro conjI allI impI)
  fix u n assume "nodes g u = Some n"
  with assms(1) obtain n' where 1: "nodes h u = Some n'" "not_later (adoption_time n) (adoption_time n')"
    unfolding evolves_def by blast
  with assms(2) obtain n'' where "nodes i u = Some n''" "not_later (adoption_time n') (adoption_time n'')"
    unfolding evolves_def by blast
  with 1 show "\<exists>n'. nodes i u = Some n' \<and> not_later (adoption_time n) (adoption_time n')"
    by (blast intro: not_later_trans)
next
  fix p e assume "edges g p = Some e"
  with assms(1) obtain e' where 1: "edges h p = Some e'" "keeps_kinds (type e) (type e')"
      "not_later (creation_time e) (creation_time e')"
    unfolding evolves_def by blast
  with assms(2) obtain e'' where "edges i p = Some e''" "keeps_kinds (type e') (type e'')"
      "not_later (creation_time e') (creation_time e'')"
    unfolding evolves_def by blast
  with 1 show "\<exists>e'. edges i p = Some e' \<and> keeps_kinds (type e) (type e')
       \<and> not_later (creation_time e) (creation_time e')"
    by (blast intro: not_later_trans keeps_kinds_trans)
qed

lemma evolves_add_user: "evolves g (add_user g u ts)"
  by (auto simp: evolves_def nodes_add_user old_adoption_def)

lemma evolves_add_relation:
  assumes "add_relation g a b k t = Inr g'"
  shows "evolves g g'"
  using assms
proof (cases rule: add_relation_cases)
  case new
  then show ?thesis by (auto simp: evolves_def)
next
  case (old e ty)
  then show ?thesis by (auto simp: evolves_def keeps_kinds_def)
qed

text \<open>
  C5. On a graph whose edges all carry a non-empty type, every call of \<open>add_user\<close> and every
  successful call of \<open>add_relation\<close> keeps that property and yields a later state of the
  graph in the sense of \<open>evolves\<close>: an adoption time or a creation time that was set is
  still set and not greater, and a type has kept all its letters and not shrunk.
  \<open>add_user\<close> leaves the edges alone, and \<open>add_relation a b\<close> adds at most the one key
  \<open>(a, b)\<close> to the edge dictionary, so that there is never a second edge from \<open>a\<close> to \<open>b\<close>.
\<close>

theorem upserts_monotone:
  assumes "typed_edges g"
  shows "typed_edges (add_user g u ts) \<and> evolves g (add_user g u ts)
         \<and> edges (add_user g u ts) = edges g
         \<and> (\<forall>g'. add_relation g a b k t = Inr g' \<longrightarrow>
               typed_edges g' \<and> evolves g g' \<and> dom (edges g') = insert (a, b) (dom (edges g)))"
  using assms
  by (simp add: evolves_add_user evolves_add_relation typed_edges_add_relation
        dom_edges_add_relation)

theorem upserts_monotone_witness:
  "typed_edges sample_graph
   \<and> typed_edges (add_user sample_graph 2 (Some 3))
   \<and> evolves sample_graph (add_user sample_graph 2 (Some 3))
   \<and> edges (add_user sample_graph 2 (Some 3)) = edges sample_graph
   \<and> add_relation sample_graph 2 1 ''M'' 4
       = Inr (sample_graph\<lparr>edges := (edges sample_graph)((2, 1) \<mapsto>
                \<lparr>type = Some ''QM'', creation_time = Some 4\<rparr>)\<rparr>)
   \<and> typed_edges (sample_graph\<lparr>edges := (edges sample_graph)((2, 1) \<mapsto>
                \<lparr>type = Some ''QM'', creation_time = Some 4\<rparr>)\<rparr>)
   \<and> evolves sample_graph (sample_graph\<lparr>edges := (edges sample_graph)((2, 1) \<mapsto>
                \<lparr>type = Some ''QM'', creation_time = Some 4\<rparr>)\<rparr>)
   \<and> dom (edges (sample_graph\<lparr>edges := (edges sample_graph)((2, 1) \<mapsto>
                \<lparr>type = Some ''QM'', creation_time = Some 4\<rparr>)\<rparr>))
       = insert (2, 1) (dom (edges sample_graph))"
proof -
  have s: "add_relation sample_graph 2 1 ''M'' 4
       = Inr (sample_graph\<lparr>edges := (edges sample_graph)((2, 1) \<mapsto>
                \<lparr>type = Some ''QM'', creation_time = Some 4\<rparr>)\<rparr>)"
    by (simp add: add_relation_old [where ty = "''Q''"] sublist_letter)
  from upserts_monotone [of sample_graph 2 "Some 3" 2 1 "''M''" 4] s show ?thesis
    by simp
qed

lemma add_relation_type:
  assumes "has_node g a" "has_node g b" "k \<in> set [''R'', ''M'', ''Q'', ''C'']"
    and "typed_edges g"
  shows "\<exists>g'. add_relation g a b k t = Inr g' \<and> has_node g' a \<and> has_node g' b
           \<and> typed_edges g' \<and> type_in g' a b = Some (add_kind (type_in g a b) k)"
proof -
  from add_relation_total [OF assms] obtain g' where g': "add_relation g a b k t = Inr g'" ..
  have n: "has_node g' a" "has_node g' b"
    using assms(1,2) add_relation_nodes [OF g'] by (simp_all add: has_node_def)
  have "type_in g' a b = Some (add_kind (type_in g a b) k)"
    using g' by (cases rule: add_relation_cases) (simp_all add: type_in_def add_kind_def)
  with g' n typed_edges_add_relation [OF assms(4) g'] show ?thesis by simp
qed

lemma stored_type_two_relations:
  assumes "has_node g a" "has_node g b" "k1 \<in> set [''R'', ''M'', ''Q'', ''C'']"
    and "k2 \<in> set [''R'', ''M'', ''Q'', ''C'']" "typed_edges g"
  shows "stored_type (two_relations g a b k1 t1 k2 t2) a b
         = Some (add_kind (Some (add_kind (type_in g a b) k1)) k2)"
proof -
  from add_relation_type [OF assms(1,2,3,5)] obtain g1 where
    1: "add_relation g a b k1 t1 = Inr g1" "has_node g1 a" "has_node g1 b" "typed_edges g1"
       "type_in g1 a b = Some (add_kind (type_in g a b) k1)"
    by blast
  from add_relation_type [OF 1(2,3) assms(4) 1(4)] obtain g2 where
    2: "add_relation g1 a b k2 t2 = Inr g2"
       "type_in g2 a b = Some (add_kind (type_in g1 a b) k2)"
    by blast
  show ?thesis
    using 1(1,5) 2 by (simp add: two_relations_def stored_type_def type_in_def)
qed

lemma mset_add_kind_commute:
  "mset (add_kind (Some (add_kind old [c1])) [c2]) = mset (add_kind (Some (add_kind old [c2])) [c1])"
  by (cases old) (auto simp: add_kind_def sublist_letter)

lemma kinds_letter:
  "k \<in> set [''R'', ''M'', ''Q'', ''C''] \<Longrightarrow> \<exists>c. k = [c]"
  by auto

text \<open>
  C6, as the code has it. The type of an edge is a string to which each new kind is
  appended, so the stored attribute depends on the order of the calls: Retweet then Mention
  stores \<open>RM\<close>, Mention then Retweet stores \<open>MR\<close> (see the example after the theorem).
  What does not depend on the order is the letters: on two nodes of a graph whose edges
  carry types, two relations of recognised kinds succeed in either order, and the two
  stored types hold the same letters, each as often in the one as in the other.
\<close>

theorem type_letters_order_free:
  assumes "has_node g a" "has_node g b" "k1 \<in> set [''R'', ''M'', ''Q'', ''C'']"
    and "k2 \<in> set [''R'', ''M'', ''Q'', ''C'']" "typed_edges g"
  shows "\<exists>ty12 ty21.
           stored_type (two_relations g a b k1 t1 k2 t2) a b = Some ty12
         \<and> stored_type (two_relations g a b k2 t2 k1 t1) a b = Some ty21
         \<and> mset ty12 = mset ty21"
proof -
  from kinds_letter [OF assms(3)] kinds_letter [OF assms(4)]
  obtain c1 c2 where c: "k1 = [c1]" "k2 = [c2]" by blast
  show ?thesis
    unfolding stored_type_two_relations [OF assms]
      stored_type_two_relations [OF assms(1,2,4,3,5)]
    by (simp add: c mset_add_kind_commute)
qed

theorem type_letters_order_free_witness:
  "has_node sample_graph 1 \<and> has_node sample_graph 2
   \<and> ''R'' \<in> set [''R'', ''M'', ''Q'', ''C''] \<and> ''M'' \<in> set [''R'', ''M'', ''Q'', ''C'']
   \<and> typed_edges sample_graph
   \<and> (\<exists>ty12 ty21.
           stored_type (two_relations sample_graph 1 2 ''R'' 10 ''M'' 20) 1 2 = Some ty12
         \<and> stored_type (two_relations sample_graph 1 2 ''M'' 20 ''R'' 10) 1 2 = Some ty21
         \<and> mset ty12 = mset ty21)"
  using type_letters_order_free [of sample_graph 1 2 "''R''" "''M''" 10 20]
  by simp

text \<open>
  On \<open>sample_graph\<close>, where 1 and 2 are nodes with no edge from 1 to 2, the two orders of a
  Retweet and a Mention relation store different type attributes.
\<close>

theorem type_order_counterexample:
  "stored_type (two_relations sample_graph 1 2 ''R'' 10 ''M'' 20) 1 2 = Some ''RM''
   \<and> stored_type (two_relations sample_graph 1 2 ''M'' 20 ''R'' 10) 1 2 = Some ''MR''
   \<and> stored_type (two_relations sample_graph 1 2 ''R'' 10 ''M'' 20) 1 2
     \<noteq> stored_type (two_relations sample_graph 1 2 ''M'' 20 ''R'' 10) 1 2"
  by (simp add: two_relations_def add_relation_def add_edge_def add_node_def stored_type_def
        sample_graph_def has_node_def Let_def sublist_code)

subsection \<open>The scan\<close>

lemma call_add_user_simps [simp]:
  "network (call_add_user w u ts) = add_user (network w) u ts"
  "logfile (call_add_user w u ts) = logfile w"
  "db_accesses (call_add_user w u ts) = db_accesses w"
  by (simp_all add: call_add_user_def)

lemma call_add_relation_Inr:
  "call_add_relation w a b k t = Inr w' \<longleftrightarrow>
     (\<exists>g. add_relation (network w) a b k t = Inr g \<and> w' = w\<lparr>network := g\<rparr>)"
  by (auto simp: call_add_relation_def split: sum.splits)

lemma evolves_has_node: "evolves g g' \<Longrightarrow> has_node g u \<Longrightarrow> has_node g' u"
  by (fastforce simp: evolves_def has_node_def)

lemma evolves_has_kind: "evolves g g' \<Longrightarrow> has_kind g a b c \<Longrightarrow> has_kind g' a b c"
  by (fastforce simp: evolves_def has_kind_def type_in_def keeps_kinds_def split: option.splits)

lemma has_kind_add_kind: "has_kind g' a b c"
  if "type_in g' a b = Some (add_kind old [c])"
  using that by (cases old) (auto simp: has_kind_def add_kind_def sublist_letter)

lemma link_succeeds:
  assumes "typed_edges (network w)" "has_node (network w) u" "k \<in> set [''R'', ''M'', ''Q'', ''C'']"
  shows "\<exists>w'. call_add_relation (call_add_user w v None) u v k t = Inr w'"
proof -
  have "\<exists>g'. add_relation (add_user (network w) v None) u v k t = Inr g'"
    using assms by (intro add_relation_total) simp_all
  then show ?thesis by (auto simp: call_add_relation_Inr)
qed

lemma link_result:
  assumes "call_add_relation (call_add_user w v None) u v k t = Inr w'"
  shows "logfile w' = logfile w" "db_accesses w' = db_accesses w"
    "evolves (network w) (network w')"
    "typed_edges (network w) \<Longrightarrow> typed_edges (network w')"
    "p \<noteq> (u, v) \<Longrightarrow> edges (network w') p = edges (network w) p"
    "type_in (network w') u v = Some (add_kind (type_in (network w) u v) k)"
proof -
  from assms obtain g where g: "add_relation (add_user (network w) v None) u v k t = Inr g"
    and w': "w' = (call_add_user w v None)\<lparr>network := g\<rparr>"
    by (auto simp: call_add_relation_Inr)
  show "logfile w' = logfile w" "db_accesses w' = db_accesses w"
    by (simp_all add: w')
  show "evolves (network w) (network w')"
    using evolves_trans [OF evolves_add_user evolves_add_relation [OF g]] by (simp add: w')
  show "typed_edges (network w')" if "typed_edges (network w)"
    using typed_edges_add_relation [OF _ g] that by (simp add: w')
  show "edges (network w') p = edges (network w) p" if "p \<noteq> (u, v)"
    using add_relation_other_edges [OF g that] by (simp add: w')
  show "type_in (network w') u v = Some (add_kind (type_in (network w) u v) k)"
    using g by (cases rule: add_relation_cases) (simp_all add: w' type_in_def add_kind_def)
qed

lemma mention_loop_skip:
  assumes "m \<in> set orm \<or> m \<in> set oqm" "mention_id m \<noteq> None"
  shows "mention_loop t orm oqm ms w = mention_loop t orm oqm (removeAll m ms) w"
  using assms
  by (induction ms arbitrary: w) (auto split: option.splits sum.splits)

lemma mention_loop_succeeds:
  assumes "typed_edges (network w)" "has_node (network w) (user_id t)"
  shows "\<exists>w'. mention_loop t orm oqm ms w = Inr w'"
  using assms
proof (induction ms arbitrary: w)
  case Nil
  then show ?case by simp
next
  case (Cons m ms)
  show ?case
  proof (cases "mention_id m")
    case None
    then show ?thesis using Cons by simp
  next
    case (Some x)
    show ?thesis
    proof (cases "m \<in> set orm \<or> m \<in> set oqm")
      case True
      then show ?thesis using Some Cons by simp
    next
      case False
      from link_succeeds [OF Cons.prems, of "''M''" x "created_at t"]
      obtain w1 where w1: "call_add_relation (call_add_user w x None) (user_id t) x ''M'' (created_at t) = Inr w1"
        by auto
      let ?w2 = "w1\<lparr>db_accesses := db_accesses w1 @
                          [SocialNetworkFindOne (user_id t), SocialNetworkFindOne x]\<rparr>"
      have "typed_edges (network ?w2)" "has_node (network ?w2) (user_id t)"
        using link_result(3,4) [OF w1] Cons.prems by (auto intro: evolves_has_node)
      from Cons.IH [OF this] show ?thesis
        using Some False w1 by simp
    qed
  qed
qed

lemma mention_loop_Cons_cases:
  assumes "mention_loop t orm oqm (m # ms) w = Inr w'"
  obtains
    (malformed) "mention_id m = None"
      "mention_loop t orm oqm ms (w\<lparr>logfile := logfile w @ [AbnormalMentionId (tweet_id t)]\<rparr>) = Inr w'"
  | (skipped) x where "mention_id m = Some x" "m \<in> set orm \<or> m \<in> set oqm"
      "mention_loop t orm oqm ms w = Inr w'"
  | (linked) x w1 where "mention_id m = Some x" "m \<notin> set orm" "m \<notin> set oqm"
      "call_add_relation (call_add_user w x None) (user_id t) x ''M'' (created_at t) = Inr w1"
      "mention_loop t orm oqm ms
         (w1\<lparr>db_accesses := db_accesses w1 @
                [SocialNetworkFindOne (user_id t), SocialNetworkFindOne x]\<rparr>) = Inr w'"
  using assms by (auto split: option.splits if_splits sum.splits)

lemma mention_loop_evolves:
  "mention_loop t orm oqm ms w = Inr w' \<Longrightarrow> evolves (network w) (network w')"
proof (induction ms arbitrary: w)
  case Nil
  then show ?case by simp
next
  case (Cons m ms)
  from Cons.prems show ?case
  proof (cases rule: mention_loop_Cons_cases)
    case malformed
    from Cons.IH [OF malformed(2)] show ?thesis by simp
  next
    case (skipped x)
    from Cons.IH [OF skipped(3)] show ?thesis .
  next
    case (linked x w1)
    from Cons.IH [OF linked(5)] link_result(3) [OF linked(4)] show ?thesis
      by (auto intro: evolves_trans)
  qed
qed

lemma mention_loop_typed_edges:
  "mention_loop t orm oqm ms w = Inr w' \<Longrightarrow> typed_edges (network w) \<Longrightarrow> typed_edges (network w')"
proof (induction ms arbitrary: w)
  case Nil
  then show ?case by simp
next
  case (Cons m ms)
  from Cons.prems(1) show ?case
  proof (cases rule: mention_loop_Cons_cases)
    case malformed
    from Cons.IH [OF malformed(2)] Cons.prems(2) show ?thesis by simp
  next
    case (skipped x)
    from Cons.IH [OF skipped(3)] Cons.prems(2) show ?thesis .
  next
    case (linked x w1)
    from Cons.IH [OF linked(5)] link_result(4) [OF linked(4)] Cons.prems(2) show ?thesis
      by simp
  qed
qed

lemma mention_loop_logfile:
  "mention_loop t orm oqm ms w = Inr w' \<Longrightarrow> logfile w' = logfile w @ anomalies t ms"
proof (induction ms arbitrary: w)
  case Nil
  then show ?case by (simp add: anomalies_def)
next
  case (Cons m ms)
  from Cons.prems show ?case
  proof (cases rule: mention_loop_Cons_cases)
    case malformed
    from Cons.IH [OF malformed(2)] malformed(1) show ?thesis by (simp add: anomalies_def)
  next
    case (skipped x)
    from Cons.IH [OF skipped(3)] skipped(1) show ?thesis by (simp add: anomalies_def)
  next
    case (linked x w1)
    from Cons.IH [OF linked(5)] link_result(1) [OF linked(4)] linked(1) show ?thesis
      by (simp add: anomalies_def)
  qed
qed

lemma mention_loop_frame:
  assumes "mention_loop t orm oqm ms w = Inr w'"
    and "\<forall>m \<in> set ms. mention_id m = Some x \<longrightarrow> m \<in> set orm \<or> m \<in> set oqm"
  shows "edges (network w') (user_id t, x) = edges (network w) (user_id t, x)"
  using assms
proof (induction ms arbitrary: w)
  case Nil
  then show ?case by simp
next
  case (Cons m ms)
  from Cons.prems(2) have rest: "\<forall>m \<in> set ms. mention_id m = Some x \<longrightarrow> m \<in> set orm \<or> m \<in> set oqm"
    by simp
  from Cons.prems(1) show ?case
  proof (cases rule: mention_loop_Cons_cases)
    case malformed
    from Cons.IH [OF malformed(2) rest] show ?thesis by simp
  next
    case (skipped y)
    from Cons.IH [OF skipped(3) rest] show ?thesis .
  next
    case (linked y w1)
    with Cons.prems(2) have "y \<noteq> x" by auto
    then have "edges (network w1) (user_id t, x) = edges (network w) (user_id t, x)"
      using link_result(5) [OF linked(4), of "(user_id t, x)"] by simp
    with Cons.IH [OF linked(5) rest] show ?thesis by simp
  qed
qed

lemma mention_loop_mentions:
  assumes "mention_loop t orm oqm ms w = Inr w'"
    and "m \<in> set ms" "mention_id m = Some y" "m \<notin> set orm" "m \<notin> set oqm"
  shows "has_kind (network w') (user_id t) y CHR ''M''"
  using assms(1,2)
proof (induction ms arbitrary: w)
  case Nil
  then show ?case by simp
next
  case (Cons m' ms)
  from Cons.prems(1) show ?case
  proof (cases rule: mention_loop_Cons_cases)
    case malformed
    with Cons.prems(2) assms(3) have "m \<in> set ms" by auto
    from Cons.IH [OF malformed(2) this] show ?thesis .
  next
    case (skipped x)
    with Cons.prems(2) assms(4,5) have "m \<in> set ms" by auto
    from Cons.IH [OF skipped(3) this] show ?thesis .
  next
    case (linked x w1)
    show ?thesis
    proof (cases "m = m'")
      case True
      with linked(1) assms(3) have "x = y" by simp
      with link_result(6) [OF linked(4)] have "has_kind (network w1) (user_id t) y CHR ''M''"
        by (auto intro: has_kind_add_kind)
      moreover from mention_loop_evolves [OF linked(5)] have "evolves (network w1) (network w')"
        by simp
      ultimately show ?thesis by (rule evolves_has_kind [rotated])
    next
      case False
      with Cons.prems(2) have "m \<in> set ms" by simp
      from Cons.IH [OF linked(5) this] show ?thesis .
    qed
  qed
qed

lemma and_then_Inr:
  "and_then r f = Inr w' \<longleftrightarrow> (\<exists>w1. r = Inr w1 \<and> f w1 = Inr w')"
  by (cases r) (simp_all add: and_then_def)

lemma process_tweet_steps:
  "process_tweet t w =
     and_then (link_opt (call_add_user w (user_id t) (Some (created_at t))) (user_id t)
                 (map_option status_user_id (retweeted_status t)) ''R'' (created_at t))
       (\<lambda>w2. and_then (link_opt w2 (user_id t)
                 (map_option status_user_id (quoted_status t)) ''Q'' (created_at t))
       (\<lambda>w3. and_then (mentions_step t w3)
       (\<lambda>w4. link_opt w4 (user_id t) (in_reply_to_user_id t) ''C'' (created_at t))))"
proof -
  have 1: "(case x of None \<Rightarrow> Inr v | Some st \<Rightarrow>
              call_add_relation (call_add_user v (status_user_id st) None) u (status_user_id st) k ts)
           = link_opt v u (map_option status_user_id x) k ts" for x v u k ts
    by (cases x) (simp_all add: link_opt_def)
  show ?thesis
    unfolding process_tweet_def Let_def 1 mentions_step_def [symmetric] link_opt_def [symmetric]
    by (rule refl)
qed

lemma link_opt_succeeds:
  assumes "typed_edges (network w)" "has_node (network w) u" "k \<in> set [''R'', ''M'', ''Q'', ''C'']"
  shows "\<exists>w'. link_opt w u vo k t = Inr w'"
  using link_succeeds [OF assms] by (cases vo) (simp_all add: link_opt_def)

lemma link_opt_result:
  assumes "link_opt w u vo k t = Inr w'"
  shows "logfile w' = logfile w"
    and "evolves (network w) (network w')"
    and "typed_edges (network w) \<Longrightarrow> typed_edges (network w')"
    and "vo \<noteq> Some x \<Longrightarrow> edges (network w') (u, x) = edges (network w) (u, x)"
proof -
  show "logfile w' = logfile w"
    using assms link_result(1) by (cases vo) (auto simp: link_opt_def)
  show "evolves (network w) (network w')"
    using assms link_result(3) by (cases vo) (auto simp: link_opt_def)
  show "typed_edges (network w')" if "typed_edges (network w)"
    using assms that link_result(4) by (cases vo) (auto simp: link_opt_def)
  show "edges (network w') (u, x) = edges (network w) (u, x)" if "vo \<noteq> Some x"
  proof (cases vo)
    case None
    with assms show ?thesis by (simp add: link_opt_def)
  next
    case (Some v)
    with that have "(u, x) \<noteq> (u, v)" by simp
    from link_result(5) [OF _ this] assms Some show ?thesis by (simp add: link_opt_def)
  qed
qed

lemma link_opt_kind:
  assumes "link_opt w u (Some v) [c] t = Inr w'"
  shows "has_kind (network w') u v c"
  using link_result(6) [of w v u "[c]" t w'] assms
  by (auto simp: link_opt_def intro: has_kind_add_kind)

lemma mentions_step_succeeds:
  assumes "typed_edges (network w)" "has_node (network w) (user_id t)"
  shows "\<exists>w'. mentions_step t w = Inr w'"
  using mention_loop_succeeds [OF assms] by (cases "user_mentions t") (simp_all add: mentions_step_def)

lemma mentions_step_result:
  assumes "mentions_step t w = Inr w'"
  shows "logfile w' = logfile w @ mention_anomalies t"
    and "evolves (network w) (network w')"
    and "typed_edges (network w) \<Longrightarrow> typed_edges (network w')"
proof -
  show "logfile w' = logfile w @ mention_anomalies t"
    using assms mention_loop_logfile
    by (cases "user_mentions t") (auto simp: mentions_step_def mention_anomalies_def)
  show "evolves (network w) (network w')"
    using assms mention_loop_evolves by (cases "user_mentions t") (auto simp: mentions_step_def)
  show "typed_edges (network w')" if "typed_edges (network w)"
    using assms that mention_loop_typed_edges
    by (cases "user_mentions t") (auto simp: mentions_step_def)
qed

lemma process_tweet_Inr:
  "process_tweet t w = Inr w' \<longleftrightarrow>
   (\<exists>w2 w3 w4.
      link_opt (call_add_user w (user_id t) (Some (created_at t))) (user_id t)
        (map_option status_user_id (retweeted_status t)) ''R'' (created_at t) = Inr w2
    \<and> link_opt w2 (user_id t) (map_option status_user_id (quoted_status t)) ''Q'' (created_at t)
        = Inr w3
    \<and> mentions_step t w3 = Inr w4
    \<and> link_opt w4 (user_id t) (in_reply_to_user_id t) ''C'' (created_at t) = Inr w')"
  by (simp add: process_tweet_steps and_then_Inr)

lemma process_tweet_succeeds:
  assumes "typed_edges (network w)"
  shows "\<exists>w'. process_tweet t w = Inr w'"
proof -
  let ?u = "user_id t"
  let ?w1 = "call_add_user w ?u (Some (created_at t))"
  have 1: "typed_edges (network ?w1)" "has_node (network ?w1) ?u"
    using assms by simp_all
  from link_opt_succeeds [OF 1, of "''R''"] obtain w2 where
    w2: "link_opt ?w1 ?u (map_option status_user_id (retweeted_status t)) ''R'' (created_at t) = Inr w2"
    by auto
  have 2: "typed_edges (network w2)" "has_node (network w2) ?u"
    using link_opt_result(2,3) [OF w2] 1 by (auto intro: evolves_has_node)
  from link_opt_succeeds [OF 2, of "''Q''"] obtain w3 where
    w3: "link_opt w2 ?u (map_option status_user_id (quoted_status t)) ''Q'' (created_at t) = Inr w3"
    by auto
  have 3: "typed_edges (network w3)" "has_node (network w3) ?u"
    using link_opt_result(2,3) [OF w3] 2 by (auto intro: evolves_has_node)
  from mentions_step_succeeds [OF 3] obtain w4 where w4: "mentions_step t w3 = Inr w4"
    by auto
  have 4: "typed_edges (network w4)" "has_node (network w4) ?u"
    using mentions_step_result(2,3) [OF w4] 3 by (auto intro: evolves_has_node)
  from link_opt_succeeds [OF 4, of "''C''"] obtain w5 where
    w5: "link_opt w4 ?u (in_reply_to_user_id t) ''C'' (created_at t) = Inr w5"
    by auto
  from w2 w3 w4 w5 show ?thesis
    unfolding process_tweet_Inr by blast
qed

lemma process_tweet_result:
  assumes "process_tweet t w = Inr w'"
  shows "evolves (network w) (network w')"
    and "typed_edges (network w) \<Longrightarrow> typed_edges (network w')"
    and "logfile w' = logfile w @ mention_anomalies t"
proof -
  let ?u = "user_id t"
  let ?w1 = "call_add_user w ?u (Some (created_at t))"
  from assms obtain w2 w3 w4 where
    w2: "link_opt ?w1 ?u (map_option status_user_id (retweeted_status t)) ''R'' (created_at t) = Inr w2"
    and w3: "link_opt w2 ?u (map_option status_user_id (quoted_status t)) ''Q'' (created_at t) = Inr w3"
    and w4: "mentions_step t w3 = Inr w4"
    and w5: "link_opt w4 ?u (in_reply_to_user_id t) ''C'' (created_at t) = Inr w'"
    unfolding process_tweet_Inr by blast
  have "evolves (network w) (network ?w1)" by (simp add: evolves_add_user)
  from this link_opt_result(2) [OF w2] have "evolves (network w) (network w2)"
    by (rule evolves_trans)
  from this link_opt_result(2) [OF w3] have "evolves (network w) (network w3)"
    by (rule evolves_trans)
  from this mentions_step_result(2) [OF w4] have "evolves (network w) (network w4)"
    by (rule evolves_trans)
  from this link_opt_result(2) [OF w5] show "evolves (network w) (network w')"
    by (rule evolves_trans)
  show "logfile w' = logfile w @ mention_anomalies t"
    using link_opt_result(1) [OF w2] link_opt_result(1) [OF w3] mentions_step_result(1) [OF w4]
      link_opt_result(1) [OF w5] by simp
  show "typed_edges (network w')" if "typed_edges (network w)"
  proof -
    from that have "typed_edges (network ?w1)" by simp
    from link_opt_result(3) [OF w2 this] have "typed_edges (network w2)" .
    from link_opt_result(3) [OF w3 this] have "typed_edges (network w3)" .
    from mentions_step_result(3) [OF w4 this] have "typed_edges (network w4)" .
    from link_opt_result(3) [OF w5 this] show ?thesis .
  qed
qed

lemma process_tweets_succeeds:
  "typed_edges (network w) \<Longrightarrow> \<exists>w'. process_tweets ts w = Inr w'"
proof (induction ts arbitrary: w)
  case Nil
  then show ?case by simp
next
  case (Cons t ts)
  from process_tweet_succeeds [OF Cons.prems] obtain w1 where w1: "process_tweet t w = Inr w1" ..
  from process_tweet_result(2) [OF w1 Cons.prems] have "typed_edges (network w1)" .
  from Cons.IH [OF this] w1 show ?case by simp
qed

lemma mention_loop_none [simp]:
  "um = None \<or> um = Some [] \<Longrightarrow>
   (case um of None \<Rightarrow> Inr w | Some ms \<Rightarrow> mention_loop t orm oqm ms w) = Inr w"
  by auto

text \<open>
  C1. The store holds two tweets carrying the topic: user 100 posts at time 1000 with
  no interaction, and user 200 posts at time 2000 a retweet of a tweet of user 100 (whatever
  that tweet mentions). Scanning the topic from the empty graph succeeds and leaves exactly
  \<open>scenario_graph\<close>: the nodes 100 and 200 with adoption times 1000 and 2000, and the single
  edge from 200 to 100 of type \<open>R\<close> created at 2000.
\<close>

theorem end_to_end_scenario:
  assumes "topic \<noteq> []" "topic \<in> set tags1" "topic \<in> set tags2"
    and "um1 = None \<or> um1 = Some []" "um2 = None \<or> um2 = Some []"
  shows "query_tweets [plain_tweet i1 100 1000 tags1 um1, retweet_of i2 200 2000 tags2 um2 100 oms]
           topic empty_world
         = Inr \<lparr>network = scenario_graph, logfile = [QueryBegin, QueryString topic],
                db_accesses = [TweetsFind topic]\<rparr>"
proof -
  let ?t1 = "plain_tweet i1 100 1000 tags1 um1"
  let ?t2 = "retweet_of i2 200 2000 tags2 um2 100 oms"
  let ?w0 = "\<lparr>network = empty_graph, logfile = [QueryBegin, QueryString topic],
                db_accesses = [TweetsFind topic]\<rparr>"
  let ?g1 = "\<lparr>nodes = [100 \<mapsto> \<lparr>adoption_time = Some 1000\<rparr>], edges = Map.empty\<rparr>"
  have f: "find_tweets [?t1, ?t2] topic = [?t1, ?t2]"
    using assms(2,3) by (simp add: find_tweets_def plain_tweet_def retweet_of_def)
  have u1: "add_user empty_graph 100 (Some 1000) = ?g1"
    by (rule graph_eqI) (simp_all add: nodes_add_user)
  let ?w1 = "\<lparr>network = ?g1, logfile = [QueryBegin, QueryString topic],
                db_accesses = [TweetsFind topic]\<rparr>"
  have p1: "process_tweet ?t1 ?w0 = Inr ?w1"
    using assms(4)
    by (simp add: process_tweet_def plain_tweet_def and_then_def call_add_user_def u1)
  let ?g2 = "\<lparr>nodes = [100 \<mapsto> \<lparr>adoption_time = Some 1000\<rparr>, 200 \<mapsto> \<lparr>adoption_time = Some 2000\<rparr>],
              edges = Map.empty\<rparr>"
  have u2: "add_user (add_user ?g1 200 (Some 2000)) 100 None = ?g2"
    by (rule graph_eqI) (auto simp: nodes_add_user old_adoption_def)
  have r: "add_relation ?g2 200 100 ''R'' 2000 = Inr scenario_graph"
    by (simp add: add_relation_new has_node_def scenario_graph_def)
  have p2: "process_tweet ?t2 ?w1
            = Inr \<lparr>network = scenario_graph, logfile = [QueryBegin, QueryString topic],
                   db_accesses = [TweetsFind topic]\<rparr>"
    using assms(5)
    by (simp add: process_tweet_def retweet_of_def and_then_def call_add_user_def
          call_add_relation_def u2 r)
  show ?thesis
    using assms(1) by (simp add: query_tweets_def f p1 p2 empty_world_def)
qed

theorem end_to_end_scenario_witness:
  "''X'' \<noteq> [] \<and> ''X'' \<in> set [''X'', ''tv''] \<and> ''X'' \<in> set [''X'']
   \<and> ((None :: mention list option) = None \<or> (None :: mention list option) = Some [])
   \<and> (Some [] = (None :: mention list option) \<or> Some [] = Some ([] :: mention list))
   \<and> query_tweets [plain_tweet 1 100 1000 [''X'', ''tv''] None,
                    retweet_of 2 200 2000 [''X''] (Some []) 100 []]
        ''X'' empty_world
      = Inr \<lparr>network = scenario_graph, logfile = [QueryBegin, QueryString ''X''],
             db_accesses = [TweetsFind ''X'']\<rparr>"
  using end_to_end_scenario [of "''X''" "[''X'', ''tv'']" "[''X'']" None "Some []" 1 2 "[]"]
  by simp

lemma anomalies_simps [simp]:
  "anomalies t [] = []"
  "anomalies t (m # ms) =
     (if mention_id m = None then AbnormalMentionId (tweet_id t) # anomalies t ms else anomalies t ms)"
  by (simp_all add: anomalies_def)

text \<open>
  C8, as the code has it. A tweet whose mention list holds one entry with an id that does
  not parse and one entry naming user \<open>x\<close> is processed to the end: the log has grown by
  exactly one record, for the malformed entry, and the scan goes on with the tweets that
  follow and returns. The edge from the author to \<open>x\<close> carries the letter M afterwards when
  the valid entry is no copy of an entry of an embedded retweeted or quoted tweet; a copy is
  skipped by the loop and yields no Mention relation (see the example after the theorem).
\<close>

theorem malformed_mention_tolerated:
  assumes "typed_edges (network w)"
    and "user_mentions t = Some ms" "ms = [bad, good] \<or> ms = [good, bad]"
    and "mention_id bad = None" "mention_id good = Some x"
  shows "\<exists>w'. process_tweet t w = Inr w'
           \<and> logfile w' = logfile w @ [AbnormalMentionId (tweet_id t)]
           \<and> (good \<notin> set (original_retweet_mentions t) \<and> good \<notin> set (original_quote_mentions t)
                \<longrightarrow> has_kind (network w') (user_id t) x CHR ''M'')
           \<and> (\<forall>rest. process_tweets (t # rest) w = process_tweets rest w'
                    \<and> (\<exists>w''. process_tweets (t # rest) w = Inr w''))"
proof -
  from process_tweet_succeeds [OF assms(1)] obtain w' where w': "process_tweet t w = Inr w'" ..
  then obtain w3 w4 where
    w4: "mentions_step t w3 = Inr w4"
    and w5: "link_opt w4 (user_id t) (in_reply_to_user_id t) ''C'' (created_at t) = Inr w'"
    unfolding process_tweet_Inr by blast
  from w4 assms(2) have
    "mention_loop t (original_retweet_mentions t) (original_quote_mentions t) ms w3 = Inr w4"
    by (simp add: mentions_step_def)
  moreover from assms(3) have "good \<in> set ms" by auto
  ultimately have "has_kind (network w4) (user_id t) x CHR ''M''"
    if "good \<notin> set (original_retweet_mentions t)" "good \<notin> set (original_quote_mentions t)"
    using assms(5) that by (rule mention_loop_mentions)
  with link_opt_result(2) [OF w5] have k: "has_kind (network w') (user_id t) x CHR ''M''"
    if "good \<notin> set (original_retweet_mentions t)" "good \<notin> set (original_quote_mentions t)"
    using that by (blast intro: evolves_has_kind)
  have "mention_anomalies t = [AbnormalMentionId (tweet_id t)]"
    using assms(2,3,4,5) by (auto simp: mention_anomalies_def)
  with process_tweet_result(3) [OF w'] have l: "logfile w' = logfile w @ [AbnormalMentionId (tweet_id t)]"
    by simp
  have "typed_edges (network w')"
    using process_tweet_result(2) [OF w' assms(1)] .
  then have "\<exists>w''. process_tweets rest w' = Inr w''" for rest
    by (rule process_tweets_succeeds)
  with w' k l show ?thesis by simp
qed

theorem malformed_mention_tolerated_witness:
  "typed_edges (network empty_world)
   \<and> user_mentions (plain_tweet 9 200 2000 [''X''] (Some [bad_mention, good_mention]))
       = Some [bad_mention, good_mention]
   \<and> ([bad_mention, good_mention] = [bad_mention, good_mention]
        \<or> [bad_mention, good_mention] = [good_mention, bad_mention])
   \<and> mention_id bad_mention = None \<and> mention_id good_mention = Some 300
   \<and> good_mention \<notin> set (original_retweet_mentions
          (plain_tweet 9 200 2000 [''X''] (Some [bad_mention, good_mention])))
   \<and> good_mention \<notin> set (original_quote_mentions
          (plain_tweet 9 200 2000 [''X''] (Some [bad_mention, good_mention])))
   \<and> (\<exists>w'. process_tweet (plain_tweet 9 200 2000 [''X''] (Some [bad_mention, good_mention])) empty_world
             = Inr w'
           \<and> logfile w' = logfile empty_world
               @ [AbnormalMentionId (tweet_id (plain_tweet 9 200 2000 [''X''] (Some [bad_mention, good_mention])))]
           \<and> has_kind (network w') (user_id (plain_tweet 9 200 2000 [''X''] (Some [bad_mention, good_mention])))
               300 CHR ''M''
           \<and> (\<forall>rest. process_tweets (plain_tweet 9 200 2000 [''X''] (Some [bad_mention, good_mention]) # rest)
                        empty_world = process_tweets rest w'
                    \<and> (\<exists>w''. process_tweets
                          (plain_tweet 9 200 2000 [''X''] (Some [bad_mention, good_mention]) # rest)
                          empty_world = Inr w'')))"
proof -
  let ?t = "plain_tweet 9 200 2000 [''X''] (Some [bad_mention, good_mention])"
  have 1: "typed_edges (network empty_world)"
    by (simp add: empty_world_def typed_edges_empty)
  have 2: "user_mentions ?t = Some [bad_mention, good_mention]"
    by (simp add: plain_tweet_def)
  have 3: "[bad_mention, good_mention] = [bad_mention, good_mention]
        \<or> [bad_mention, good_mention] = [good_mention, bad_mention]" by simp
  have 4: "mention_id bad_mention = None" by (simp add: bad_mention_def)
  have 5: "mention_id good_mention = Some 300" by (simp add: good_mention_def)
  have 6: "good_mention \<notin> set (original_retweet_mentions ?t)"
    by (simp add: original_retweet_mentions_def plain_tweet_def)
  have 7: "good_mention \<notin> set (original_quote_mentions ?t)"
    by (simp add: original_quote_mentions_def plain_tweet_def)
  from malformed_mention_tolerated [OF 1 2 3 4 5] 1 2 3 4 5 6 7 show ?thesis
    by blast
qed

text \<open>
  The retweet \<open>retweet_with_two_mentions\<close> of user 200 carries a malformed entry and the entry
  naming user 300, which is a copy of the retweeted tweet's mention. Processed on the empty
  world, it logs the one anomaly and returns, with the Retweet edge from 200 to 100 and no
  edge from 200 to 300.
\<close>

theorem malformed_mention_counterexample:
  "user_mentions retweet_with_two_mentions = Some [bad_mention, good_mention]
   \<and> mention_id bad_mention = None \<and> mention_id good_mention = Some 300
   \<and> process_tweet retweet_with_two_mentions empty_world
       = Inr \<lparr>network =
               \<lparr>nodes = [200 \<mapsto> \<lparr>adoption_time = Some 2000\<rparr>, 100 \<mapsto> \<lparr>adoption_time = None\<rparr>],
                edges = [(200, 100) \<mapsto> \<lparr>type = Some ''R'', creation_time = Some 2000\<rparr>]\<rparr>,
              logfile = [AbnormalMentionId 2], db_accesses = []\<rparr>
   \<and> edges \<lparr>nodes = [200 \<mapsto> \<lparr>adoption_time = Some 2000\<rparr>, 100 \<mapsto> \<lparr>adoption_time = None\<rparr>],
              edges = [(200, 100) \<mapsto> \<lparr>type = Some ''R'', creation_time = Some 2000\<rparr>]\<rparr> (200, 300)
       = None"
  by (simp add: retweet_with_two_mentions_def retweet_of_def process_tweet_def and_then_def
        call_add_user_def call_add_relation_def add_user_def add_relation_def add_edge_def
        add_node_def has_node_def empty_world_def empty_graph_def Let_def
        original_retweet_mentions_def original_quote_mentions_def
        bad_mention_def good_mention_def)

lemma mention_loop_user_mentions [simp]:
  "mention_loop (t\<lparr>user_mentions := y\<rparr>) orm oqm ms w = mention_loop t orm oqm ms w"
  by (induction ms arbitrary: w) (simp_all split: option.splits sum.splits)

lemma original_mentions_user_mentions [simp]:
  "original_retweet_mentions (t\<lparr>user_mentions := y\<rparr>) = original_retweet_mentions t"
  "original_quote_mentions (t\<lparr>user_mentions := y\<rparr>) = original_quote_mentions t"
  by (simp_all add: original_retweet_mentions_def original_quote_mentions_def)

lemma mentions_step_frame:
  assumes "mentions_step t w = Inr w'"
    and "user_mentions t = Some ms"
    and "\<forall>m \<in> set ms. mention_id m = Some x \<longrightarrow>
           m \<in> set (original_retweet_mentions t) \<or> m \<in> set (original_quote_mentions t)"
  shows "edges (network w') (user_id t, x) = edges (network w) (user_id t, x)"
  using assms mention_loop_frame by (simp add: mentions_step_def)

text \<open>
  C2. Let a tweet embed a retweeted tweet, and let \<open>m\<close> be an entry of its own mention list,
  naming user \<open>x\<close>, that is equal as a whole to an entry of the retweeted tweet's mention
  list. Then \<open>m\<close> contributes nothing: processing the tweet gives the same result, state
  included, as processing it with every copy of \<open>m\<close> removed from its mention list. On a
  graph whose edges carry types the tweet is processed to the end and the edge from the author
  to the original author carries the letter R; and when every entry naming \<open>x\<close> is such a
  copy and \<open>x\<close> is neither the retweeted author, the quoted author nor the reply target, the
  edge from the author to \<open>x\<close> is after the tweet what it was before it (none, if there was
  none). An entry naming \<open>x\<close> that is no copy still yields a Mention relation
  (\<open>mention_loop_mentions\<close>).
\<close>

theorem retweet_mentions_not_recounted:
  assumes "retweeted_status t = Some st" "user_mentions t = Some ms"
    and "m \<in> set ms" "m \<in> set (status_user_mentions st)" "mention_id m = Some x"
  shows "process_tweet t w = process_tweet (t\<lparr>user_mentions := Some (removeAll m ms)\<rparr>) w
         \<and> (typed_edges (network w) \<longrightarrow>
              (\<exists>w'. process_tweet t w = Inr w'
                 \<and> has_kind (network w') (user_id t) (status_user_id st) CHR ''R''
                 \<and> ((\<forall>m' \<in> set ms. mention_id m' = Some x \<longrightarrow>
                        m' \<in> set (original_retweet_mentions t) \<or> m' \<in> set (original_quote_mentions t))
                      \<and> x \<noteq> status_user_id st
                      \<and> map_option status_user_id (quoted_status t) \<noteq> Some x
                      \<and> in_reply_to_user_id t \<noteq> Some x
                    \<longrightarrow> edges (network w') (user_id t, x) = edges (network w) (user_id t, x))))"
proof (intro conjI impI)
  have dup: "m \<in> set (original_retweet_mentions t) \<or> m \<in> set (original_quote_mentions t)"
    using assms(1,4) by (simp add: original_retweet_mentions_def)
  have "mentions_step (t\<lparr>user_mentions := Some (removeAll m ms)\<rparr>) v = mentions_step t v" for v
    using mention_loop_skip [OF dup, where t = t and ms = ms and w = v] assms(2,5)
    by (simp add: mentions_step_def)
  then show "process_tweet t w = process_tweet (t\<lparr>user_mentions := Some (removeAll m ms)\<rparr>) w"
    by (simp add: process_tweet_steps)
next
  assume typed: "typed_edges (network w)"
  let ?u = "user_id t"
  let ?w1 = "call_add_user w ?u (Some (created_at t))"
  from process_tweet_succeeds [OF typed] obtain w' where w': "process_tweet t w = Inr w'" ..
  then obtain w2 w3 w4 where
    w2: "link_opt ?w1 ?u (map_option status_user_id (retweeted_status t)) ''R'' (created_at t) = Inr w2"
    and w3: "link_opt w2 ?u (map_option status_user_id (quoted_status t)) ''Q'' (created_at t) = Inr w3"
    and w4: "mentions_step t w3 = Inr w4"
    and w5: "link_opt w4 ?u (in_reply_to_user_id t) ''C'' (created_at t) = Inr w'"
    unfolding process_tweet_Inr by blast
  from w2 assms(1) have "has_kind (network w2) ?u (status_user_id st) CHR ''R''"
    by (simp add: link_opt_kind)
  with link_opt_result(2) [OF w3] have "has_kind (network w3) ?u (status_user_id st) CHR ''R''"
    by (rule evolves_has_kind)
  with mentions_step_result(2) [OF w4] have "has_kind (network w4) ?u (status_user_id st) CHR ''R''"
    by (rule evolves_has_kind)
  with link_opt_result(2) [OF w5] have r: "has_kind (network w') ?u (status_user_id st) CHR ''R''"
    by (rule evolves_has_kind)
  have frame: "edges (network w') (?u, x) = edges (network w) (?u, x)"
    if all: "\<forall>m' \<in> set ms. mention_id m' = Some x \<longrightarrow>
               m' \<in> set (original_retweet_mentions t) \<or> m' \<in> set (original_quote_mentions t)"
      and other: "x \<noteq> status_user_id st" "map_option status_user_id (quoted_status t) \<noteq> Some x"
        "in_reply_to_user_id t \<noteq> Some x"
  proof -
    have "edges (network ?w1) (?u, x) = edges (network w) (?u, x)" by simp
    moreover have "edges (network w2) (?u, x) = edges (network ?w1) (?u, x)"
      using other(1) assms(1) by (intro link_opt_result(4) [OF w2]) auto
    moreover have "edges (network w3) (?u, x) = edges (network w2) (?u, x)"
      using other(2) by (intro link_opt_result(4) [OF w3])
    moreover have "edges (network w4) (?u, x) = edges (network w3) (?u, x)"
      using w4 assms(2) all by (rule mentions_step_frame)
    moreover have "edges (network w') (?u, x) = edges (network w4) (?u, x)"
      using other(3) by (intro link_opt_result(4) [OF w5])
    ultimately show ?thesis by simp
  qed
  from w' r frame show "\<exists>w'. process_tweet t w = Inr w'
                 \<and> has_kind (network w') (user_id t) (status_user_id st) CHR ''R''
                 \<and> ((\<forall>m' \<in> set ms. mention_id m' = Some x \<longrightarrow>
                        m' \<in> set (original_retweet_mentions t) \<or> m' \<in> set (original_quote_mentions t))
                      \<and> x \<noteq> status_user_id st
                      \<and> map_option status_user_id (quoted_status t) \<noteq> Some x
                      \<and> in_reply_to_user_id t \<noteq> Some x
                    \<longrightarrow> edges (network w') (user_id t, x) = edges (network w) (user_id t, x))"
    by blast
qed

theorem retweet_mentions_not_recounted_witness:
  "retweeted_status retweet_with_mention
     = Some \<lparr>status_user_id = 100, status_user_mentions = [good_mention]\<rparr>
   \<and> user_mentions retweet_with_mention = Some [good_mention]
   \<and> good_mention \<in> set [good_mention]
   \<and> good_mention \<in> set (status_user_mentions \<lparr>status_user_id = 100, status_user_mentions = [good_mention]\<rparr>)
   \<and> mention_id good_mention = Some 300
   \<and> process_tweet retweet_with_mention empty_world
       = process_tweet (retweet_with_mention\<lparr>user_mentions := Some (removeAll good_mention [good_mention])\<rparr>)
           empty_world
   \<and> typed_edges (network empty_world)
   \<and> (\<exists>w'. process_tweet retweet_with_mention empty_world = Inr w'
          \<and> has_kind (network w') 200 100 CHR ''R''
          \<and> edges (network w') (200, 300) = None)"
proof -
  let ?st = "\<lparr>status_user_id = 100, status_user_mentions = [good_mention]\<rparr>"
  have 1: "retweeted_status retweet_with_mention = Some ?st"
    and 2: "user_mentions retweet_with_mention = Some [good_mention]"
    and u: "user_id retweet_with_mention = 200"
    and q: "quoted_status retweet_with_mention = None"
    and c: "in_reply_to_user_id retweet_with_mention = None"
    by (simp_all add: retweet_with_mention_def retweet_of_def)
  have 3: "good_mention \<in> set [good_mention]" by simp
  have 4: "good_mention \<in> set (status_user_mentions ?st)" by simp
  have 5: "mention_id good_mention = Some 300" by (simp add: good_mention_def)
  have 6: "typed_edges (network empty_world)"
    by (simp add: empty_world_def typed_edges_empty)
  have 7: "original_retweet_mentions retweet_with_mention = [good_mention]"
    by (simp add: original_retweet_mentions_def 1)
  have 8: "edges (network empty_world) (200, 300) = None"
    by (simp add: empty_world_def)
  note T = retweet_mentions_not_recounted [OF 1 2 3 4 5, of empty_world]
  from T have a: "process_tweet retweet_with_mention empty_world
       = process_tweet (retweet_with_mention\<lparr>user_mentions := Some (removeAll good_mention [good_mention])\<rparr>)
           empty_world"
    by (rule conjunct1)
  from T 6 obtain w' where w': "process_tweet retweet_with_mention empty_world = Inr w'"
    and r: "has_kind (network w') (user_id retweet_with_mention) (status_user_id ?st) CHR ''R''"
    and f: "(\<forall>m' \<in> set [good_mention]. mention_id m' = Some 300 \<longrightarrow>
                m' \<in> set (original_retweet_mentions retweet_with_mention)
                \<or> m' \<in> set (original_quote_mentions retweet_with_mention))
            \<and> 300 \<noteq> status_user_id ?st
            \<and> map_option status_user_id (quoted_status retweet_with_mention) \<noteq> Some 300
            \<and> in_reply_to_user_id retweet_with_mention \<noteq> Some 300
            \<longrightarrow> edges (network w') (user_id retweet_with_mention, 300)
                = edges (network empty_world) (user_id retweet_with_mention, 300)"
    by blast
  from f have e: "edges (network w') (200, 300) = None"
    by (simp add: 7 8 u q c)
  from r have "has_kind (network w') 200 100 CHR ''R''" by (simp add: u)
  with w' e have "\<exists>w'. process_tweet retweet_with_mention empty_world = Inr w'
          \<and> has_kind (network w') 200 100 CHR ''R''
          \<and> edges (network w') (200, 300) = None"
    by blast
  with 1 2 3 4 5 6 a show ?thesis by blast
qed

lemma goes_on_Inr [simp]: "goes_on w0 (Inr w) \<longleftrightarrow> prefix (db_accesses w0) (db_accesses w)"
  by (simp add: goes_on_def final_world_def error_of_def)

lemma add_relation_error: "add_relation g a b k t \<noteq> Inl InvalidArgument"
  by (simp add: add_relation_def Let_def split: option.splits)

lemma goes_on_call_add_relation:
  assumes "prefix (db_accesses w0) (db_accesses w)"
  shows "goes_on w0 (call_add_relation w a b k t)"
proof (cases "add_relation (network w) a b k t")
  case (Inl e)
  with add_relation_error [of "network w" a b k t] have "e \<noteq> InvalidArgument" by auto
  with Inl assms show ?thesis
    by (simp add: call_add_relation_def goes_on_def final_world_def error_of_def)
next
  case (Inr g)
  with assms show ?thesis by (simp add: call_add_relation_def)
qed

lemma goes_on_link_opt:
  assumes "prefix (db_accesses w0) (db_accesses w)"
  shows "goes_on w0 (link_opt w u vo k t)"
proof (cases vo)
  case None
  with assms show ?thesis by (simp add: link_opt_def)
next
  case (Some v)
  have "goes_on w0 (call_add_relation (call_add_user w v None) u v k t)"
    using assms by (intro goes_on_call_add_relation) simp
  with Some show ?thesis by (simp add: link_opt_def)
qed

lemma goes_on_and_then:
  assumes "goes_on w0 r"
    and "\<And>w1. prefix (db_accesses w0) (db_accesses w1) \<Longrightarrow> goes_on w0 (f w1)"
  shows "goes_on w0 (and_then r f)"
  using assms by (cases r) (simp_all add: and_then_def goes_on_def final_world_def error_of_def)

lemma goes_on_mention_loop:
  "prefix (db_accesses w0) (db_accesses w) \<Longrightarrow> goes_on w0 (mention_loop t orm oqm ms w)"
proof (induction ms arbitrary: w)
  case Nil
  then show ?case by simp
next
  case (Cons m ms)
  show ?case
  proof (cases "mention_id m")
    case None
    with Cons show ?thesis by simp
  next
    case (Some x)
    show ?thesis
    proof (cases "m \<in> set orm \<or> m \<in> set oqm")
      case True
      with Some Cons show ?thesis by simp
    next
      case False
      let ?r = "call_add_relation (call_add_user w x None) (user_id t) x ''M'' (created_at t)"
      have r: "goes_on w0 ?r"
        using Cons.prems by (intro goes_on_call_add_relation) simp
      show ?thesis
      proof (cases ?r)
        case (Inl e)
        with r Some False show ?thesis
          by (simp add: goes_on_def final_world_def error_of_def)
      next
        case (Inr w1)
        with r have "prefix (db_accesses w0) (db_accesses w1)" by simp
        then have "prefix (db_accesses w0)
                     (db_accesses (w1\<lparr>db_accesses := db_accesses w1 @
                        [SocialNetworkFindOne (user_id t), SocialNetworkFindOne x]\<rparr>))"
          by simp
        from Cons.IH [OF this] Inr Some False show ?thesis by simp
      qed
    qed
  qed
qed

lemma goes_on_mentions_step:
  "prefix (db_accesses w0) (db_accesses w) \<Longrightarrow> goes_on w0 (mentions_step t w)"
  by (cases "user_mentions t") (simp_all add: mentions_step_def goes_on_mention_loop)

lemma goes_on_process_tweet:
  assumes "prefix (db_accesses w0) (db_accesses w)"
  shows "goes_on w0 (process_tweet t w)"
  unfolding process_tweet_steps
  by (intro goes_on_and_then goes_on_link_opt goes_on_mentions_step) (simp_all add: assms)

lemma goes_on_process_tweets:
  "prefix (db_accesses w0) (db_accesses w) \<Longrightarrow> goes_on w0 (process_tweets ts w)"
proof (induction ts arbitrary: w)
  case Nil
  then show ?case by simp
next
  case (Cons t ts)
  from goes_on_process_tweet [OF Cons.prems] have r: "goes_on w0 (process_tweet t w)" .
  show ?case
  proof (cases "process_tweet t w")
    case (Inl e)
    with r show ?thesis by (simp add: goes_on_def final_world_def error_of_def)
  next
    case (Inr w1)
    with r have "prefix (db_accesses w0) (db_accesses w1)" by simp
    from Cons.IH [OF this] Inr show ?thesis by simp
  qed
qed

text \<open>
  C9. With the empty hashtag \<open>query_tweets\<close> fails on its first assertion, in the state it was
  called in: the graph, the log and the list of database accesses are untouched, so no query
  has been sent. With any other hashtag the run sends the query for that hashtag to the tweet
  collection as its first database access and does not fail on that assertion; on a graph
  whose edges carry types it returns normally.
\<close>

theorem empty_hashtag_rejected:
  "query_tweets db [] w = Inl (InvalidArgument, w)
   \<and> (hashtag \<noteq> [] \<longrightarrow>
         prefix (db_accesses w @ [TweetsFind hashtag])
           (db_accesses (final_world (query_tweets db hashtag w)))
         \<and> error_of (query_tweets db hashtag w) \<noteq> Some InvalidArgument)
   \<and> (hashtag \<noteq> [] \<and> typed_edges (network w) \<longrightarrow> (\<exists>w'. query_tweets db hashtag w = Inr w'))"
proof (intro conjI impI)
  show "query_tweets db [] w = Inl (InvalidArgument, w)"
    by (simp add: query_tweets_def)
next
  assume h: "hashtag \<noteq> []"
  let ?w2 = "w\<lparr>logfile := logfile w @ [QueryBegin, QueryString hashtag],
               db_accesses := db_accesses w @ [TweetsFind hashtag]\<rparr>"
  have q: "query_tweets db hashtag w = process_tweets (find_tweets db hashtag) ?w2"
    using h by (simp add: query_tweets_def Let_def)
  have "goes_on ?w2 (process_tweets (find_tweets db hashtag) ?w2)"
    by (intro goes_on_process_tweets) simp
  then show "prefix (db_accesses w @ [TweetsFind hashtag])
           (db_accesses (final_world (query_tweets db hashtag w)))"
    and "error_of (query_tweets db hashtag w) \<noteq> Some InvalidArgument"
    by (simp_all add: q goes_on_def)
next
  assume "hashtag \<noteq> [] \<and> typed_edges (network w)"
  then show "\<exists>w'. query_tweets db hashtag w = Inr w'"
    by (simp add: query_tweets_def Let_def process_tweets_succeeds)
qed

theorem empty_hashtag_rejected_witness:
  "query_tweets [plain_tweet 1 100 1000 [''X''] None] [] empty_world
     = Inl (InvalidArgument, empty_world)
   \<and> ''X'' \<noteq> []
   \<and> prefix (db_accesses empty_world @ [TweetsFind ''X''])
         (db_accesses (final_world (query_tweets [plain_tweet 1 100 1000 [''X''] None] ''X'' empty_world)))
   \<and> error_of (query_tweets [plain_tweet 1 100 1000 [''X''] None] ''X'' empty_world)
       \<noteq> Some InvalidArgument
   \<and> typed_edges (network empty_world)
   \<and> (\<exists>w'. query_tweets [plain_tweet 1 100 1000 [''X''] None] ''X'' empty_world = Inr w')"
proof -
  have "typed_edges (network empty_world)"
    by (simp add: empty_world_def typed_edges_empty)
  with empty_hashtag_rejected [of "[plain_tweet 1 100 1000 [''X''] None]" empty_world "''X''"]
  show ?thesis by simp
qed

end
